theory Spec2Isabelle
  imports Main "HOL-Library.AList" "HOL-Library.Sublist" "HOL-Library.Multiset"
begin

section \<open>Python values used by parser.py\<close>

text \<open>
  A Python \<open>dict\<close> with string keys and string values is an association list in
  insertion order with distinct keys. \<open>d[k] = v\<close> overwrites the value of an existing key
  in place and appends a new key at the end, which is what \<^const>\<open>AList.update\<close> does.
\<close>

type_synonym pydict = "(string \<times> string) list"

definition dict_get :: "pydict \<Rightarrow> string \<Rightarrow> string option" where
  "dict_get d k = map_of d k"

definition dict_set :: "string \<Rightarrow> string \<Rightarrow> pydict \<Rightarrow> pydict" where
  "dict_set k v d = AList.update k v d"

text \<open>\<open>d.update(other)\<close>: every pair of \<open>other\<close> is stored into \<open>d\<close>, in order.\<close>

definition dict_update :: "pydict \<Rightarrow> pydict \<Rightarrow> pydict" where
  "dict_update d other = foldl (\<lambda>acc kv. dict_set (fst kv) (snd kv) acc) d other"

text \<open>\<open>d.get(k, default)\<close>.\<close>

definition dict_get_default :: "pydict \<Rightarrow> string \<Rightarrow> string \<Rightarrow> string" where
  "dict_get_default d k dflt = (case dict_get d k of None \<Rightarrow> dflt | Some v \<Rightarrow> v)"

datatype error = IndexError | KeyError | ValueError | TypeError

text \<open>
  \<open>xs[:n]\<close>: \<open>None\<close> keeps everything, a negative bound counts from the end.
\<close>

definition slice_to :: "'a list \<Rightarrow> int option \<Rightarrow> 'a list" where
  "slice_to xs bound =
     (case bound of
        None \<Rightarrow> xs
      | Some n \<Rightarrow> if 0 \<le> n then take (nat n) xs else take (nat (int (length xs) + n)) xs)"

text \<open>
  \<open>xs[i]\<close> for a Python list: an index from \<open>-len(xs)\<close> to \<open>len(xs) - 1\<close> selects an
  element, any other index raises \<open>IndexError\<close>.
\<close>

definition list_index :: "'a list \<Rightarrow> int \<Rightarrow> error + 'a" where
  "list_index xs i =
     (if 0 \<le> i \<and> i < int (length xs) then Inr (xs ! nat i)
      else if i < 0 \<and> - int (length xs) \<le> i then Inr (xs ! nat (int (length xs) + i))
      else Inl IndexError)"

section \<open>Listing rows and the external world\<close>

text \<open>
  What extract_paper_info reads of one \<open>tr.gsc_a_tr\<close> element. Each \<open>find\<close> gives a tag or
  \<open>None\<close> (a tag is always truthy), \<open>find_all\<close> gives the list of matching tags, and
  \<open>get_text(strip=True)\<close> gives a string. The text of a tag is stored where the code
  reads it.
\<close>

record title_link =
  link_text :: string
  link_href :: "string option"

record title_cell =
  cell_link :: "title_link option"
  gray_divs :: "string list"

record row =
  title_td :: "title_cell option"
  citations_td :: "string option option"
  year_td :: "string option option"

text \<open>
  One listing request either raises (transport failure, bad status) or gives the rows
  found in the page.
\<close>

datatype response = Failed | Page "row list"

record profile =
  name :: string
  url :: string
  info :: string

text \<open>
  The collaborators outside parser.py, taken as parameters:
  \<^item> \<open>search_profiles\<close>: the result of search_author_profiles for an author name;
  \<^item> \<open>user_of_url\<close>: \<open>parse_qs(urlparse(profile_url).query).get('user', [''])[0]\<close>, for
    profile URLs that urlparse accepts (those built by search_author_profiles are);
  \<^item> \<open>list_works\<close>: the listing request for a user id and a \<open>cstart\<close> offset;
  \<^item> \<open>urljoin\<close>: \<open>urllib.parse.urljoin\<close>, where \<open>None\<close> is the \<open>ValueError\<close> it raises on a
    reference it cannot parse;
  \<^item> \<open>int_of_str\<close>: the builtin \<open>int\<close> applied to a \<open>str\<close>, where \<open>None\<close> is the \<open>ValueError\<close>
    that get_profile_papers catches;
  \<^item> \<open>paper_details\<close>: the dict get_paper_details returns to the unit of work with the
    given index for the given detail URL (empty when the fetch failed).
\<close>

record env =
  search_profiles :: "string \<Rightarrow> profile list"
  user_of_url :: "string \<Rightarrow> string"
  list_works :: "string \<Rightarrow> nat \<Rightarrow> response"
  urljoin :: "string \<Rightarrow> string \<Rightarrow> string option"
  int_of_str :: "string \<Rightarrow> int option"
  paper_details :: "nat \<Rightarrow> string \<Rightarrow> pydict"

definition base_url :: string where
  "base_url = ''https://scholar.google.com''"

section \<open>extract_paper_info\<close>

text \<open>
  The body of the \<open>try\<close> of extract_paper_info, step by step. The one call that can
  raise is urljoin: \<open>Inl d\<close> is its exception reaching \<open>except Exception\<close> while
  \<open>paper_info\<close> is \<open>d\<close>, after which \<open>d\<close> is returned as it is.
\<close>

definition extract_title :: "env \<Rightarrow> title_link option \<Rightarrow> pydict \<Rightarrow> pydict + pydict" where
  "extract_title e title_a paper_info =
     (case title_a of
        None \<Rightarrow> Inr paper_info
      | Some l \<Rightarrow>
          (let with_title = dict_set ''title'' (link_text l) paper_info;
               detail_href = (case link_href l of None \<Rightarrow> [] | Some h \<Rightarrow> h)
           in if detail_href \<noteq> [] then
                (case urljoin e base_url detail_href of
                   None \<Rightarrow> Inl with_title
                 | Some detail_url \<Rightarrow> Inr (dict_set ''detail_url'' detail_url with_title))
              else Inr with_title))"

definition extract_gray :: "string list \<Rightarrow> pydict \<Rightarrow> pydict" where
  "extract_gray divs paper_info =
     (let with_authors = (if 1 \<le> length divs then dict_set ''authors'' (divs ! 0) paper_info
                          else paper_info)
      in if 2 \<le> length divs then dict_set ''venue'' (divs ! 1) with_authors
         else with_authors)"

definition extract_citations :: "string option option \<Rightarrow> pydict \<Rightarrow> pydict" where
  "extract_citations cell paper_info =
     (case cell of
        None \<Rightarrow> paper_info
      | Some None \<Rightarrow> dict_set ''citations'' ''0'' paper_info
      | Some (Some t) \<Rightarrow> dict_set ''citations'' t paper_info)"

definition extract_year :: "string option option \<Rightarrow> pydict \<Rightarrow> pydict" where
  "extract_year cell paper_info =
     (case cell of
        None \<Rightarrow> paper_info
      | Some None \<Rightarrow> paper_info
      | Some (Some t) \<Rightarrow> dict_set ''year'' t paper_info)"

definition extract_paper_info :: "env \<Rightarrow> row \<Rightarrow> string \<Rightarrow> pydict" where
  "extract_paper_info e r user_id =
     (case title_td r of
        None \<Rightarrow> extract_year (year_td r) (extract_citations (citations_td r) [])
      | Some tc \<Rightarrow>
          (case extract_title e (cell_link tc) [] of
             Inl raised \<Rightarrow> raised
           | Inr paper_info \<Rightarrow>
               extract_year (year_td r)
                 (extract_citations (citations_td r) (extract_gray (gray_divs tc) paper_info))))"

section \<open>get_profile_papers\<close>

text \<open>\<open>max_papers and len(papers) >= max_papers\<close>: \<open>None\<close> and \<open>0\<close> are falsy.\<close>

definition cap_reached :: "int option \<Rightarrow> pydict list \<Rightarrow> bool" where
  "cap_reached max_papers papers =
     (case max_papers of
        None \<Rightarrow> False
      | Some n \<Rightarrow> n \<noteq> 0 \<and> n \<le> int (length papers))"

text \<open>
  The year check of one record: \<open>year_limit\<close> is truthy, the record has a non-empty
  \<open>year\<close>, \<open>int\<close> accepts it and the number is below the limit.
\<close>

definition below_year_limit :: "env \<Rightarrow> int option \<Rightarrow> pydict \<Rightarrow> bool" where
  "below_year_limit e year_limit paper_info =
     (case year_limit of
        None \<Rightarrow> False
      | Some y \<Rightarrow>
          y \<noteq> 0 \<and>
          (case dict_get paper_info ''year'' of
             None \<Rightarrow> False
           | Some s \<Rightarrow>
               s \<noteq> [] \<and> (case int_of_str e s of None \<Rightarrow> False | Some paper_year \<Rightarrow> paper_year < y)))"

text \<open>
  The \<open>for row in paper_rows\<close> loop: \<open>Return\<close> is one of its \<open>return papers\<close>
  statements, \<open>Continue\<close> is the loop running to its end.
\<close>

datatype flow = Return "pydict list" | Continue "pydict list"

fun process_rows :: "env \<Rightarrow> string \<Rightarrow> int option \<Rightarrow> int option \<Rightarrow> row list \<Rightarrow> pydict list \<Rightarrow> flow" where
  "process_rows e user_id max_papers year_limit [] papers = Continue papers"
| "process_rows e user_id max_papers year_limit (r # rs) papers =
     (if cap_reached max_papers papers then Return papers
      else (let paper_info = extract_paper_info e r user_id
            in if paper_info \<noteq> [] then
                 (if below_year_limit e year_limit paper_info then Return papers
                  else process_rows e user_id max_papers year_limit rs (papers @ [paper_info]))
               else process_rows e user_id max_papers year_limit rs papers))"

text \<open>
  The \<open>while True\<close> loop. The state is the offset, the papers collected and the
  offsets requested so far. The loop need not end (a server may answer every offset
  with a full page), so not returning is the value \<open>None\<close>.
\<close>

partial_function (option) fetch_loop ::
  "env \<Rightarrow> string \<Rightarrow> int option \<Rightarrow> int option \<Rightarrow> nat \<Rightarrow> pydict list \<Rightarrow> nat list
     \<Rightarrow> (pydict list \<times> nat list) option" where
  "fetch_loop e user_id max_papers year_limit start_index papers requests =
     (case list_works e user_id start_index of
        Failed \<Rightarrow> Some (papers, requests @ [start_index])
      | Page paper_rows \<Rightarrow>
          if paper_rows = [] then Some (papers, requests @ [start_index])
          else (case process_rows e user_id max_papers year_limit paper_rows papers of
                  Return ps \<Rightarrow> Some (ps, requests @ [start_index])
                | Continue ps \<Rightarrow>
                    if length paper_rows < 100 then Some (ps, requests @ [start_index])
                    else fetch_loop e user_id max_papers year_limit
                           (start_index + length paper_rows) ps (requests @ [start_index])))"

declare fetch_loop.simps [code]

text \<open>
  get_profile_papers gives the papers and the \<open>cstart\<close> offsets it requested, in order.
\<close>

definition get_profile_papers ::
  "env \<Rightarrow> string \<Rightarrow> int option \<Rightarrow> int option \<Rightarrow> (pydict list \<times> nat list) option" where
  "get_profile_papers e profile_url max_papers year_limit =
     (let user_id = user_of_url e profile_url
      in if user_id = [] then Some ([], [])
         else fetch_loop e user_id max_papers year_limit 0 [] [])"

section \<open>The enrichment stage of analyze_author_research\<close>

text \<open>
  process_paper: a paper with a \<open>detail_url\<close> is updated with the details fetched for
  it; the pair of the paper and its index is returned. get_paper_details catches its
  own exceptions, so process_paper never takes its \<open>except\<close> branch with a different
  result.
\<close>

definition process_paper :: "env \<Rightarrow> pydict \<times> nat \<Rightarrow> pydict \<times> nat" where
  "process_paper e paper_data =
     (let paper = fst paper_data; index = snd paper_data
      in case dict_get paper ''detail_url'' of
           None \<Rightarrow> (paper, index)
         | Some detail_url \<Rightarrow> (dict_update paper (paper_details e index detail_url), index))"

text \<open>
  \<open>detailed_papers[index] = paper\<close> for every result, in the order the results
  arrive; an index outside the list raises \<open>IndexError\<close>.
\<close>

fun store_results :: "pydict option list \<Rightarrow> (pydict \<times> nat) list \<Rightarrow> error + pydict option list" where
  "store_results detailed_papers [] = Inr detailed_papers"
| "store_results detailed_papers (res # rest) =
     (if snd res < length detailed_papers then
        store_results (detailed_papers[snd res := Some (fst res)]) rest
      else Inl IndexError)"

text \<open>\<open>detailed_papers = [None] * n\<close>, then the results are stored.\<close>

definition assemble :: "nat \<Rightarrow> (pydict \<times> nat) list \<Rightarrow> error + pydict option list" where
  "assemble n results = store_results (replicate n None) results"

text \<open>
  The whole stage. \<open>ThreadPoolExecutor(max_workers=num_workers)\<close> raises \<open>ValueError\<close>
  for a worker count below one; \<open>executor.map\<close> gives the results in the order of
  \<open>paper_data\<close>.
\<close>

definition enrich :: "env \<Rightarrow> int \<Rightarrow> pydict list \<Rightarrow> error + pydict option list" where
  "enrich e num_workers papers_to_process =
     (let paper_data = zip papers_to_process [0 ..< length papers_to_process]
      in if num_workers \<le> 0 then Inl ValueError
         else assemble (length papers_to_process) (map (process_paper e) paper_data))"

section \<open>The research summary\<close>

datatype line = Header nat string | Entry string string

text \<open>\<open>s[:n]\<close> followed by \<open>'...'\<close> when \<open>len(s) > n\<close>.\<close>

definition truncate :: "nat \<Rightarrow> string \<Rightarrow> string" where
  "truncate n s = take n s @ (if n < length s then ''...'' else [])"

definition optional_field :: "pydict \<Rightarrow> string \<Rightarrow> string \<Rightarrow> line list" where
  "optional_field paper key label =
     (case dict_get paper key of None \<Rightarrow> [] | Some v \<Rightarrow> [Entry label v])"

text \<open>
  The lines printed for one paper; \<open>paper['title']\<close> raises \<open>KeyError\<close> when the key is
  missing, and subscripting \<open>None\<close> raises \<open>TypeError\<close>.
\<close>

definition summary_lines :: "nat \<Rightarrow> pydict option \<Rightarrow> error + line list" where
  "summary_lines i slot =
     (case slot of
        None \<Rightarrow> Inl TypeError
      | Some paper \<Rightarrow>
          (case dict_get paper ''title'' of
             None \<Rightarrow> Inl KeyError
           | Some title \<Rightarrow>
               Inr ([Header i (truncate 80 title),
                     Entry ''Year'' (dict_get_default paper ''year'' ''Unknown''),
                     Entry ''Citations'' (dict_get_default paper ''citations'' ''0''),
                     Entry ''Authors'' (dict_get_default paper ''authors'' ''Unknown''),
                     Entry ''Venue'' (dict_get_default paper ''venue'' ''Unknown'')]
                    @ (case dict_get paper ''abstract'' of
                         Some a \<Rightarrow> [Entry ''Abstract'' (truncate 500 a)]
                       | None \<Rightarrow>
                           (case dict_get paper ''Description'' of
                              Some d \<Rightarrow> [Entry ''Description'' (truncate 500 d)]
                            | None \<Rightarrow> []))
                    @ optional_field paper ''Journal'' ''Journal''
                    @ optional_field paper ''Volume'' ''Volume''
                    @ optional_field paper ''Pages'' ''Pages''
                    @ optional_field paper ''Publisher'' ''Publisher''
                    @ optional_field paper ''Total citations'' ''Scholar Citations'')))"

text \<open>\<open>for i, paper in enumerate(detailed_papers, 1)\<close>: the first exception ends the loop.\<close>

fun print_summary :: "nat \<Rightarrow> pydict option list \<Rightarrow> error + line list" where
  "print_summary i [] = Inr []"
| "print_summary i (slot # slots) =
     (case summary_lines i slot of
        Inl err \<Rightarrow> Inl err
      | Inr ls \<Rightarrow>
          (case print_summary (Suc i) slots of
             Inl err \<Rightarrow> Inl err
           | Inr rest \<Rightarrow> Inr (ls @ rest)))"

section \<open>analyze_author_research\<close>

text \<open>
  The profile selection: an index \<open>>= len(profiles)\<close> is replaced by 0 and the warning
  is printed (the flag), then \<open>profiles[profile_index]\<close> is read.
\<close>

definition choose_profile :: "profile list \<Rightarrow> int \<Rightarrow> error + (profile \<times> bool)" where
  "choose_profile profiles profile_index =
     (let out_of_range = (int (length profiles) \<le> profile_index);
          used_index = (if out_of_range then 0 else profile_index)
      in case list_index profiles used_index of
           Inl err \<Rightarrow> Inl err
         | Inr chosen_profile \<Rightarrow> Inr (chosen_profile, out_of_range))"

text \<open>
  What a finished run gives: the list returned, the \<open>cstart\<close> offsets and detail URLs
  requested, the summary printed, and whether the index warning was printed.
\<close>

record run =
  returned :: "pydict option list"
  listing_requests :: "nat list"
  detail_requests :: "string list"
  printed :: "line list"
  index_warning :: bool

definition analyze_author_research ::
  "env \<Rightarrow> string \<Rightarrow> int option \<Rightarrow> int \<Rightarrow> int \<Rightarrow> int option \<Rightarrow> (error + run) option" where
  "analyze_author_research e author_name max_papers profile_index num_workers year_limit =
     (let profiles = search_profiles e author_name
      in if profiles = [] then
           Some (Inr \<lparr>returned = [], listing_requests = [], detail_requests = [],
                      printed = [], index_warning = False\<rparr>)
         else
           (case choose_profile profiles profile_index of
              Inl err \<Rightarrow> Some (Inl err)
            | Inr chosen \<Rightarrow>
                (case get_profile_papers e (url (fst chosen)) max_papers year_limit of
                   None \<Rightarrow> None
                 | Some listed \<Rightarrow>
                     (let papers_to_process = slice_to (fst listed) max_papers
                      in case enrich e num_workers papers_to_process of
                           Inl err \<Rightarrow> Some (Inl err)
                         | Inr detailed_papers \<Rightarrow>
                             (case print_summary 1 detailed_papers of
                                Inl err \<Rightarrow> Some (Inl err)
                              | Inr ls \<Rightarrow>
                                  Some (Inr \<lparr>returned = detailed_papers,
                                             listing_requests = snd listed,
                                             detail_requests =
                                               List.map_filter (\<lambda>p. dict_get p ''detail_url'')
                                                 papers_to_process,
                                             printed = ls,
                                             index_warning = snd chosen\<rparr>))))))"

section \<open>Notions used to state the properties\<close>

text \<open>The non-empty records of a list of rows, in source order.\<close>

definition row_records :: "env \<Rightarrow> string \<Rightarrow> row list \<Rightarrow> pydict list" where
  "row_records e user_id rows =
     filter (\<lambda>p. p \<noteq> []) (map (\<lambda>r. extract_paper_info e r user_id) rows)"

text \<open>The rows served at an offset, and the rows of a sequence of requests, in order.\<close>

definition page_rows :: "env \<Rightarrow> string \<Rightarrow> nat \<Rightarrow> row list" where
  "page_rows e user_id off = (case list_works e user_id off of Failed \<Rightarrow> [] | Page rs \<Rightarrow> rs)"

definition rows_of :: "env \<Rightarrow> string \<Rightarrow> nat list \<Rightarrow> row list" where
  "rows_of e user_id offsets = concat (map (page_rows e user_id) offsets)"

text \<open>The records up to the first one that fails the year check of the code.\<close>

definition kept :: "env \<Rightarrow> string \<Rightarrow> int option \<Rightarrow> row list \<Rightarrow> pydict list" where
  "kept e user_id year_limit rows =
     takeWhile (\<lambda>p. \<not> below_year_limit e year_limit p) (row_records e user_id rows)"

text \<open>
  The spec's words for a disqualifying record: its year is present (a non-empty text;
  \<open>int\<close> rejects the empty one), parses as an integer, and is strictly less than the
  floor.
\<close>

definition year_below :: "env \<Rightarrow> int \<Rightarrow> pydict \<Rightarrow> bool" where
  "year_below e y p =
     (case dict_get p ''year'' of
        None \<Rightarrow> False
      | Some s \<Rightarrow>
          s \<noteq> [] \<and> (case int_of_str e s of None \<Rightarrow> False | Some paper_year \<Rightarrow> paper_year < y))"

text \<open>No cap is in force: \<open>max_papers\<close> is \<open>None\<close> or \<open>0\<close>.\<close>

definition uncapped :: "int option \<Rightarrow> bool" where
  "uncapped max_papers = (max_papers = None \<or> max_papers = Some 0)"

text \<open>
  A sequence of requested offsets follows the paging rule from \<open>start\<close>: it is not
  empty, it begins at \<open>start\<close>, and every request but the last was answered by a page
  of at least 100 rows and is followed by the offset advanced by the number of rows
  received.
\<close>

fun offsets_follow :: "(nat \<Rightarrow> response) \<Rightarrow> nat \<Rightarrow> nat list \<Rightarrow> bool" where
  "offsets_follow get start [] = False"
| "offsets_follow get start [off] = (off = start)"
| "offsets_follow get start (off # off' # offs) =
     (off = start \<and>
      (case get start of
         Failed \<Rightarrow> False
       | Page rs \<Rightarrow> 100 \<le> length rs \<and> offsets_follow get (start + length rs) (off' # offs)))"

text \<open>
  The extraction of a row is cut short when its title link has a non-empty \<open>href\<close>
  that urljoin rejects.
\<close>

definition cut_short :: "env \<Rightarrow> row \<Rightarrow> bool" where
  "cut_short e r =
     (case title_td r of
        None \<Rightarrow> False
      | Some tc \<Rightarrow>
          (case cell_link tc of
             None \<Rightarrow> False
           | Some l \<Rightarrow>
               (case link_href l of
                  None \<Rightarrow> False
                | Some h \<Rightarrow> h \<noteq> [] \<and> urljoin e base_url h = None)))"

text \<open>
  What a row offers for a key, in the spec's words "the fields that could be
  extracted": the text of the title link, the joined non-empty \<open>href\<close> of that link,
  the first and the second gray line of the title cell, the text of the citation link
  (or \<open>"0"\<close> for a citations cell without one), and the text of the year span; the title
  alone when the extraction is cut short.
\<close>

definition extractable :: "env \<Rightarrow> row \<Rightarrow> string \<Rightarrow> string option" where
  "extractable e r key =
     (if key = ''title'' then
        (case title_td r of None \<Rightarrow> None | Some tc \<Rightarrow> map_option link_text (cell_link tc))
      else if cut_short e r then None
      else if key = ''detail_url'' then
        (case title_td r of
           None \<Rightarrow> None
         | Some tc \<Rightarrow>
             (case cell_link tc of
                None \<Rightarrow> None
              | Some l \<Rightarrow>
                  (case link_href l of
                     None \<Rightarrow> None
                   | Some h \<Rightarrow> if h = [] then None else urljoin e base_url h)))
      else if key = ''authors'' then
        (case title_td r of
           None \<Rightarrow> None
         | Some tc \<Rightarrow> (case gray_divs tc of [] \<Rightarrow> None | a # rest \<Rightarrow> Some a))
      else if key = ''venue'' then
        (case title_td r of
           None \<Rightarrow> None
         | Some tc \<Rightarrow> (case gray_divs tc of a # v # rest \<Rightarrow> Some v | _ \<Rightarrow> None))
      else if key = ''citations'' then
        (case citations_td r of None \<Rightarrow> None | Some None \<Rightarrow> Some ''0'' | Some (Some t) \<Rightarrow> Some t)
      else if key = ''year'' then
        (case year_td r of Some (Some t) \<Rightarrow> Some t | _ \<Rightarrow> None)
      else None)"

text \<open>
  What a cap leaves of the records still to come when \<open>k\<close> records are already
  collected, and what it leaves of a whole listing. \<open>None\<close> and \<open>0\<close> are no cap; a
  negative cap leaves nothing.
\<close>

definition cap_take :: "int option \<Rightarrow> nat \<Rightarrow> 'a list \<Rightarrow> 'a list" where
  "cap_take max_papers k xs =
     (case max_papers of
        None \<Rightarrow> xs
      | Some n \<Rightarrow> if n = 0 then xs else take (nat (n - int k)) xs)"

definition capped :: "int option \<Rightarrow> 'a list \<Rightarrow> 'a list" where
  "capped max_papers xs =
     (case max_papers of
        None \<Rightarrow> xs
      | Some n \<Rightarrow> if n = 0 then xs else take (nat n) xs)"

text \<open>
  The cap is met while the rows are read, \<open>k\<close> records being collected before them:
  the test \<open>len(papers) >= max_papers\<close> holds at the latest when the last of the rows is
  looked at, that is, the rows before the last one bring the count to the cap.
\<close>

definition cap_met :: "env \<Rightarrow> string \<Rightarrow> int option \<Rightarrow> nat \<Rightarrow> row list \<Rightarrow> bool" where
  "cap_met e user_id max_papers k rows =
     (case max_papers of
        None \<Rightarrow> False
      | Some n \<Rightarrow>
          n \<noteq> 0 \<and> rows \<noteq> [] \<and>
          n \<le> int k + int (length (row_records e user_id (butlast rows))))"

section \<open>Concrete inputs\<close>

text \<open>A complete listing row with the given year text.\<close>

definition row_with_year :: "string \<Rightarrow> row" where
  "row_with_year y =
     \<lparr>title_td = Some \<lparr>cell_link = Some \<lparr>link_text = ''P'' @ y, link_href = Some ''/c?p=1''\<rparr>,
                       gray_divs = [''A Author'', ''Venue'']\<rparr>,
      citations_td = Some (Some ''7''),
      year_td = Some (Some y)\<rparr>"

text \<open>A row in which no cell is found, and a row with a citations cell only.\<close>

definition blank_row :: row where
  "blank_row = \<lparr>title_td = None, citations_td = None, year_td = None\<rparr>"

definition citations_only_row :: row where
  "citations_only_row = \<lparr>title_td = None, citations_td = Some None, year_td = None\<rparr>"

text \<open>A row with a title link but without a citations cell.\<close>

definition title_only_row :: row where
  "title_only_row =
     \<lparr>title_td = Some \<lparr>cell_link = Some \<lparr>link_text = ''P'', link_href = None\<rparr>, gray_divs = []\<rparr>,
      citations_td = None,
      year_td = None\<rparr>"

text \<open>
  The integer parser of the worlds below: on a text made of an optional sign and one
  to 4300 ASCII digits it gives what \<open>int\<close> gives, and the worlds hold no other year
  text that \<open>int\<close> accepts.
\<close>

definition digit_val :: "char \<Rightarrow> nat option" where
  "digit_val c = (let n = (of_char c :: nat) in if 48 \<le> n \<and> n \<le> 57 then Some (n - 48) else None)"

fun digits_value :: "nat \<Rightarrow> string \<Rightarrow> nat option" where
  "digits_value acc [] = Some acc"
| "digits_value acc (c # cs) =
     (case digit_val c of None \<Rightarrow> None | Some d \<Rightarrow> digits_value (10 * acc + d) cs)"

definition unsigned_int :: "string \<Rightarrow> nat option" where
  "unsigned_int s = (if s = [] \<or> 4300 < length s then None else digits_value 0 s)"

definition ascii_int :: "string \<Rightarrow> int option" where
  "ascii_int s =
     (case s of
        [] \<Rightarrow> None
      | c # cs \<Rightarrow>
          if c = CHR ''-'' then map_option (\<lambda>n. - int n) (unsigned_int cs)
          else if c = CHR ''+'' then map_option int (unsigned_int cs)
          else map_option int (unsigned_int (c # cs)))"

text \<open>
  A world with one profile whose listing is given by \<open>pages\<close> and whose detail pages
  are given by \<open>details\<close>.
\<close>

definition world :: "(nat \<Rightarrow> response) \<Rightarrow> (nat \<Rightarrow> string \<Rightarrow> pydict) \<Rightarrow> env" where
  "world pages details =
     \<lparr>search_profiles =
        (\<lambda>author. [\<lparr>name = author, url = ''/citations?user=u1'', info = author\<rparr>]),
      user_of_url = (\<lambda>u. if u = ''/citations?user=u1'' then ''u1'' else []),
      list_works = (\<lambda>user_id off. pages off),
      urljoin = (\<lambda>base href. Some (base @ href)),
      int_of_str = ascii_int,
      paper_details = details\<rparr>"

definition no_details :: "nat \<Rightarrow> string \<Rightarrow> pydict" where
  "no_details i u = []"

definition single_page :: "row list \<Rightarrow> nat \<Rightarrow> response" where
  "single_page rows off = (if off = 0 then Page rows else Page [])"

text \<open>A listing of 100 rows at offset 0 and 37 rows at offset 100, all equal to \<open>r\<close>.\<close>

definition two_pages :: "row \<Rightarrow> nat \<Rightarrow> response" where
  "two_pages r off =
     (if off = 0 then Page (replicate 100 r)
      else if off = 100 then Page (replicate 37 r)
      else Page [])"

text \<open>A detail page that carries a field labelled \<open>title\<close>.\<close>

definition retitling_details :: "nat \<Rightarrow> string \<Rightarrow> pydict" where
  "retitling_details i u = [(''title'', ''Other'')]"

text \<open>The record that extract_paper_info gives for \<open>row_with_year y\<close> in such a world.\<close>

definition paper_of_year :: "string \<Rightarrow> pydict" where
  "paper_of_year y =
     [(''title'', ''P'' @ y), (''detail_url'', ''https://scholar.google.com/c?p=1''),
      (''authors'', ''A Author''), (''venue'', ''Venue''), (''citations'', ''7''), (''year'', y)]"

text \<open>One page of four complete rows, with the years 2021, 2020, 2019 and 2022.\<close>

definition years_listing :: "nat \<Rightarrow> response" where
  "years_listing = single_page (map row_with_year [''2021'', ''2020'', ''2019'', ''2022''])"

text \<open>One page whose only row carries the year text \<open>-1\<close>.\<close>

definition negative_year_listing :: "nat \<Rightarrow> response" where
  "negative_year_listing = single_page [row_with_year ''-1'']"

text \<open>One page: a row with no cell, a row with a title only, and a complete row.\<close>

definition mixed_listing :: "nat \<Rightarrow> response" where
  "mixed_listing = single_page [blank_row, title_only_row, row_with_year ''2021'']"

text \<open>Detail pages that give an abstract and a journal.\<close>

definition abstract_details :: "nat \<Rightarrow> string \<Rightarrow> pydict" where
  "abstract_details i u = [(''abstract'', ''Text''), (''Journal'', ''J'')]"

text \<open>
  A listing of 100 rows at the offsets 0 and 100 and 37 rows at offset 200, all equal
  to \<open>r\<close>.
\<close>

definition three_pages :: "row \<Rightarrow> nat \<Rightarrow> response" where
  "three_pages r off =
     (if off = 0 \<or> off = 100 then Page (replicate 100 r)
      else if off = 200 then Page (replicate 37 r)
      else Page [])"

section \<open>Facts about the row loop\<close>

lemma row_records_Nil [simp]: "row_records e u [] = []"
  by (simp add: row_records_def)

lemma row_records_append:
  "row_records e u (xs @ ys) = row_records e u xs @ row_records e u ys"
  by (simp add: row_records_def)

lemma row_records_Cons:
  "row_records e u (r # rs) =
     (if extract_paper_info e r u \<noteq> [] then extract_paper_info e r u # row_records e u rs
      else row_records e u rs)"
  by (simp add: row_records_def)

lemma uncapped_cap_reached [simp]: "uncapped mp \<Longrightarrow> \<not> cap_reached mp ps"
  by (auto simp: uncapped_def cap_reached_def)

lemma kept_append_all:
  "\<forall>p \<in> set (row_records e u xs). \<not> below_year_limit e yl p \<Longrightarrow>
     kept e u yl (xs @ ys) = row_records e u xs @ kept e u yl ys"
  by (simp add: kept_def row_records_append takeWhile_append2)

lemma kept_all:
  "\<forall>p \<in> set (row_records e u xs). \<not> below_year_limit e yl p \<Longrightarrow>
     kept e u yl xs = row_records e u xs"
  by (simp add: kept_def)

lemma kept_prefix: "prefix (kept e u yl rows) (row_records e u rows)"
  unfolding kept_def by (metis prefixI takeWhile_dropWhile_id)

lemma cap_take_0: "cap_take mp 0 xs = capped mp xs"
  by (simp add: cap_take_def capped_def split: option.splits)

lemma capped_prefix: "prefix (capped mp xs) xs"
  by (simp add: capped_def take_is_prefix split: option.splits)

lemma cap_take_Nil [simp]: "cap_take mp k [] = []"
  by (simp add: cap_take_def split: option.splits)

lemma kept_Nil [simp]: "kept e u yl [] = []"
  by (simp add: kept_def)

lemma kept_Cons:
  "kept e u yl (r # rs) =
     (if extract_paper_info e r u = [] then kept e u yl rs
      else if below_year_limit e yl (extract_paper_info e r u) then []
      else extract_paper_info e r u # kept e u yl rs)"
  by (simp add: kept_def row_records_Cons)

lemma cap_reached_take:
  "cap_reached mp papers \<Longrightarrow> cap_take mp (length papers) xs = []"
  by (auto simp: cap_reached_def cap_take_def split: option.splits)

lemma cap_take_Cons:
  "\<not> cap_reached mp papers \<Longrightarrow>
     cap_take mp (length papers) (x # xs) = x # cap_take mp (Suc (length papers)) xs"
proof (cases mp)
  case None
  then show ?thesis by (simp add: cap_take_def)
next
  case (Some n)
  assume "\<not> cap_reached mp papers"
  with Some have "n = 0 \<or> int (length papers) < n" by (auto simp: cap_reached_def)
  then show ?thesis
  proof
    assume "n = 0" with Some show ?thesis by (simp add: cap_take_def)
  next
    assume lt: "int (length papers) < n"
    then have "nat (n - int (length papers)) = Suc (nat (n - int (Suc (length papers))))"
      by simp
    with Some lt show ?thesis by (simp add: cap_take_def)
  qed
qed

lemma cap_met_Nil [simp]: "\<not> cap_met e u mp k []"
  by (simp add: cap_met_def split: option.splits)

lemma cap_met_single:
  "cap_met e u mp (length papers) [r] = cap_reached mp papers"
  by (auto simp: cap_met_def cap_reached_def split: option.splits)

lemma cap_met_skip:
  "extract_paper_info e r u = [] \<Longrightarrow> rs \<noteq> [] \<Longrightarrow>
     cap_met e u mp k (r # rs) = cap_met e u mp k rs"
  by (simp add: cap_met_def row_records_Cons split: option.splits)

lemma cap_met_step:
  "extract_paper_info e r u \<noteq> [] \<Longrightarrow> rs \<noteq> [] \<Longrightarrow>
     cap_met e u mp k (r # rs) = cap_met e u mp (Suc k) rs"
  by (auto simp: cap_met_def row_records_Cons split: option.splits)

lemma cap_reached_met:
  "cap_reached mp papers \<Longrightarrow> cap_met e u mp (length papers) (r # rs)"
  by (auto simp: cap_met_def cap_reached_def split: option.splits)

lemma process_rows_eq:
  "process_rows e u mp yl rows papers =
     (if (\<exists>p \<in> set (row_records e u rows). below_year_limit e yl p)
         \<or> cap_met e u mp (length papers) rows
      then Return (papers @ cap_take mp (length papers) (kept e u yl rows))
      else Continue (papers @ row_records e u rows))"
proof (induction rows arbitrary: papers)
  case Nil
  then show ?case by simp
next
  case (Cons r rs)
  let ?info = "extract_paper_info e r u"
  show ?case
  proof (cases "cap_reached mp papers")
    case True
    then show ?thesis by (simp add: cap_reached_met cap_reached_take)
  next
    case nocap: False
    show ?thesis
    proof (cases "?info = []")
      case True
      show ?thesis
      proof (cases "rs = []")
        case True
        with \<open>?info = []\<close> nocap show ?thesis
          by (simp add: cap_met_single row_records_Cons kept_Cons)
      next
        case False
        with True nocap Cons.IH[of papers] show ?thesis
          by (simp add: cap_met_skip row_records_Cons kept_Cons)
      qed
    next
      case info: False
      show ?thesis
      proof (cases "below_year_limit e yl ?info")
        case True
        with info nocap show ?thesis by (simp add: Let_def row_records_Cons kept_Cons)
      next
        case ok: False
        show ?thesis
        proof (cases "rs = []")
          case True
          with info ok nocap show ?thesis
            by (simp add: Let_def cap_met_single row_records_Cons kept_Cons)
        next
          case False
          with info ok nocap Cons.IH[of "papers @ [?info]"] show ?thesis
            by (simp add: Let_def cap_met_step row_records_Cons kept_Cons cap_take_Cons)
        qed
      qed
    qed
  qed
qed

lemma row_records_snoc:
  "rows \<noteq> [] \<Longrightarrow>
     row_records e u rows = row_records e u (butlast rows) @ row_records e u [last rows]"
proof -
  assume "rows \<noteq> []"
  then have "row_records e u rows = row_records e u (butlast rows @ [last rows])" by simp
  then show ?thesis by (simp only: row_records_append)
qed

lemma row_records_butlast_le:
  "length (row_records e u rows) \<le> Suc (length (row_records e u (butlast rows)))"
proof (cases "rows = []")
  case True
  then show ?thesis by simp
next
  case False
  from row_records_snoc[OF this, of e u] show ?thesis by (simp add: row_records_Cons)
qed

lemma butlast_records_le:
  "length (row_records e u (butlast rows)) \<le> length (row_records e u rows)"
proof (cases "rows = []")
  case True
  then show ?thesis by simp
next
  case False
  from row_records_snoc[OF this, of e u] show ?thesis by simp
qed

lemma butlast_records_mono:
  "length (row_records e u (butlast rows)) \<le> length (row_records e u (butlast (rows @ rest)))"
proof (cases "rest = []")
  case True
  then show ?thesis by simp
next
  case False
  then have "butlast (rows @ rest) = rows @ butlast rest" by (simp add: butlast_append)
  with butlast_records_le[of e u rows] show ?thesis by (simp add: row_records_append)
qed

lemma cap_met_mono: "cap_met e u mp k rows \<Longrightarrow> cap_met e u mp k (rows @ rest)"
  using butlast_records_mono[of e u rows rest]
  by (auto simp: cap_met_def split: option.splits)

lemma cap_met_append:
  "rest \<noteq> [] \<Longrightarrow>
     cap_met e u mp k (rows @ rest) = cap_met e u mp (k + length (row_records e u rows)) rest"
  by (auto simp: cap_met_def butlast_append row_records_append split: option.splits)

lemma cap_take_append:
  assumes "\<not> cap_met e u mp k rows"
  shows "cap_take mp k (row_records e u rows @ xs) =
           row_records e u rows @ cap_take mp (k + length (row_records e u rows)) xs"
proof (cases "rows = []")
  case True
  then show ?thesis by simp
next
  case False
  show ?thesis
  proof (cases mp)
    case None
    then show ?thesis by (simp add: cap_take_def)
  next
    case (Some n)
    show ?thesis
    proof (cases "n = 0")
      case True
      with Some show ?thesis by (simp add: cap_take_def)
    next
      case nz: False
      with assms Some False
      have "int k + int (length (row_records e u (butlast rows))) < n"
        by (simp add: cap_met_def)
      with row_records_butlast_le[of e u rows]
      have le: "int k + int (length (row_records e u rows)) \<le> n" by linarith
      then have "length (row_records e u rows) \<le> nat (n - int k)" by linarith
      moreover from le have "nat (n - int k) - length (row_records e u rows) =
          nat (n - int (k + length (row_records e u rows)))" by linarith
      ultimately show ?thesis using Some nz by (simp add: cap_take_def)
    qed
  qed
qed

lemma cap_take_all:
  "\<not> cap_met e u mp k rows \<Longrightarrow> cap_take mp k (row_records e u rows) = row_records e u rows"
  using cap_take_append[of e u mp k rows "[]"] by simp

lemma cap_take_cut:
  assumes "cap_met e u mp k rows"
  shows "cap_take mp k (row_records e u rows @ xs) = cap_take mp k (row_records e u rows)"
proof -
  from assms obtain n where n: "mp = Some n" "n \<noteq> 0"
    "n \<le> int k + int (length (row_records e u (butlast rows)))"
    by (auto simp: cap_met_def split: option.splits)
  note butlast_records_le[of e u rows]
  with n have "nat (n - int k) \<le> length (row_records e u rows)" by linarith
  with n show ?thesis by (simp add: cap_take_def)
qed

lemma kept_bad:
  "\<exists>p \<in> set (row_records e u xs). below_year_limit e yl p \<Longrightarrow>
     kept e u yl (xs @ ys) = kept e u yl xs"
  by (auto simp: kept_def row_records_append takeWhile_append1)

lemma stop_result:
  assumes "(\<exists>p \<in> set (row_records e u rows). below_year_limit e yl p) \<or> cap_met e u mp k rows"
  shows "cap_take mp k (kept e u yl (rows @ rest)) = cap_take mp k (kept e u yl rows)"
proof (cases "\<exists>p \<in> set (row_records e u rows). below_year_limit e yl p")
  case True
  then show ?thesis by (simp add: kept_bad)
next
  case False
  with assms have met: "cap_met e u mp k rows" by simp
  from False have "kept e u yl (rows @ rest) = row_records e u rows @ kept e u yl rest"
    and "kept e u yl rows = row_records e u rows"
    by (simp_all add: kept_append_all kept_all)
  with cap_take_cut[OF met] show ?thesis by simp
qed

section \<open>Facts about the fetch loop\<close>

lemma rows_of_Nil [simp]: "rows_of e u [] = []"
  by (simp add: rows_of_def)

lemma rows_of_single: "rows_of e u [off] = page_rows e u off"
  by (simp add: rows_of_def)

lemmas fetch_loop_induct = fetch_loop.raw_induct[rotated 1, consumes 1, case_names step]

lemma fetch_loop_invariant:
  assumes "fetch_loop e u mp yl start papers requests = Some res"
  shows "\<exists>offs. snd res = requests @ offs \<and> offsets_follow (list_works e u) start offs \<and>
           fst res = papers @ cap_take mp (length papers) (kept e u yl (rows_of e u offs))"
  using assms
proof (induction e u mp yl start papers requests res rule: fetch_loop_induct)
  case (step loop e u mp yl start papers requests res)
  show ?case
  proof (cases "list_works e u start")
    case Failed
    with step.hyps have "res = (papers, requests @ [start])" by simp
    with Failed show ?thesis
      by (intro exI[of _ "[start]"]) (simp add: rows_of_single page_rows_def)
  next
    case (Page rows)
    then have ro: "rows_of e u [start] = rows" by (simp add: rows_of_single page_rows_def)
    show ?thesis
    proof (cases "rows = []")
      case True
      with step.hyps Page have "res = (papers, requests @ [start])" by simp
      with True ro show ?thesis by (intro exI[of _ "[start]"]) simp
    next
      case nonempty: False
      show ?thesis
      proof (cases "(\<exists>p \<in> set (row_records e u rows). below_year_limit e yl p)
                    \<or> cap_met e u mp (length papers) rows")
        case True
        with step.hyps Page nonempty
        have "res = (papers @ cap_take mp (length papers) (kept e u yl rows), requests @ [start])"
          by (simp add: process_rows_eq)
        with ro show ?thesis by (intro exI[of _ "[start]"]) simp
      next
        case False
        then have ok: "\<forall>p \<in> set (row_records e u rows). \<not> below_year_limit e yl p"
          and nomet: "\<not> cap_met e u mp (length papers) rows" by simp_all
        show ?thesis
        proof (cases "length rows < 100")
          case True
          with step.hyps Page nonempty False
          have "res = (papers @ row_records e u rows, requests @ [start])"
            by (simp add: process_rows_eq)
          moreover have "cap_take mp (length papers) (kept e u yl rows) = row_records e u rows"
            using ok nomet by (simp add: kept_all cap_take_all)
          ultimately show ?thesis using ro by (intro exI[of _ "[start]"]) simp
        next
          case full: False
          with step.hyps Page nonempty False
          have "loop e u mp yl (start + length rows) (papers @ row_records e u rows)
                  (requests @ [start]) = Some res"
            by (simp add: process_rows_eq)
          from step.IH[OF this] obtain offs where
            IH: "snd res = (requests @ [start]) @ offs"
              "offsets_follow (list_works e u) (start + length rows) offs"
              "fst res = (papers @ row_records e u rows) @
                 cap_take mp (length (papers @ row_records e u rows)) (kept e u yl (rows_of e u offs))"
            by blast
          from IH(2) obtain o1 os where offs: "offs = o1 # os" by (cases offs) auto
          have "offsets_follow (list_works e u) start (start # offs)"
            using IH(2) Page full offs by simp
          moreover have "rows_of e u (start # offs) = rows @ rows_of e u offs"
            using Page by (simp add: rows_of_def page_rows_def)
          then have "papers @ cap_take mp (length papers) (kept e u yl (rows_of e u (start # offs))) =
                       fst res"
            using ok cap_take_append[OF nomet] IH(3) by (simp add: kept_append_all)
          ultimately show ?thesis using IH(1)
            by (intro exI[of _ "start # offs"]) simp
        qed
      qed
    qed
  qed
qed

lemma fetch_loop_returns:
  assumes "\<forall>off \<ge> bound. (case list_works e u off of Failed \<Rightarrow> True | Page rs \<Rightarrow> length rs < 100)"
  shows "\<exists>res. fetch_loop e u mp yl start papers requests = Some res"
proof (induction "bound - start" arbitrary: start papers requests rule: less_induct)
  case less
  show ?case
  proof (cases "list_works e u start")
    case Failed
    then show ?thesis by (subst fetch_loop.simps) simp
  next
    case (Page rows)
    show ?thesis
    proof (cases "rows = [] \<or> length rows < 100")
      case True
      with Page show ?thesis
        by (subst fetch_loop.simps) (auto split: flow.splits)
    next
      case False
      then have full: "100 \<le> length rows" "rows \<noteq> []" by auto
      have "start < bound"
      proof (rule ccontr)
        assume "\<not> start < bound"
        then have "bound \<le> start" by simp
        with assms Page have "length rows < 100" by (auto split: response.splits)
        with full show False by simp
      qed
      with full have dec: "bound - (start + length rows) < bound - start" by simp
      show ?thesis
      proof (cases "process_rows e u mp yl rows papers")
        case (Return ps)
        with Page full show ?thesis by (subst fetch_loop.simps) simp
      next
        case (Continue ps)
        from less[OF dec, of ps "requests @ [start]"] Page full Continue show ?thesis
          by (subst fetch_loop.simps) simp
      qed
    qed
  qed
qed

lemma fetch_loop_total:
  assumes "offsets_follow (list_works e u) start offs"
    and "(case list_works e u (last offs) of Failed \<Rightarrow> True | Page rows \<Rightarrow> length rows < 100)
         \<or> (\<exists>p \<in> set (row_records e u (rows_of e u offs)). below_year_limit e yl p)
         \<or> cap_met e u mp (length papers) (rows_of e u offs)"
  shows "\<exists>reqs. reqs \<noteq> [] \<and> prefix reqs offs \<and>
           fetch_loop e u mp yl start papers requests =
             Some (papers @ cap_take mp (length papers) (kept e u yl (rows_of e u offs)),
                   requests @ reqs) \<and>
           ((\<forall>p \<in> set (row_records e u (rows_of e u (butlast offs))). \<not> below_year_limit e yl p)
            \<and> \<not> cap_met e u mp (length papers) (rows_of e u (butlast offs))
            \<longrightarrow> reqs = offs)"
  using assms
proof (induction "list_works e u" start offs arbitrary: papers requests rule: offsets_follow.induct)
  case (1 start)
  then show ?case by simp
next
  case (2 start off)
  then have off: "off = start" by simp
  show ?case
  proof (cases "list_works e u start")
    case Failed
    then have "fetch_loop e u mp yl start papers requests = Some (papers, requests @ [start])"
      by (subst fetch_loop.simps) simp
    with Failed off show ?thesis
      by (intro exI[of _ "[start]"]) (simp add: rows_of_single page_rows_def)
  next
    case (Page rows)
    then have ro: "rows_of e u [off] = rows" by (simp add: off rows_of_single page_rows_def)
    show ?thesis
    proof (cases "rows = []")
      case True
      with Page have "fetch_loop e u mp yl start papers requests = Some (papers, requests @ [start])"
        by (subst fetch_loop.simps) simp
      with True off ro show ?thesis
        by (intro exI[of _ "[start]"]) simp
    next
      case nonempty: False
      show ?thesis
      proof (cases "(\<exists>p \<in> set (row_records e u rows). below_year_limit e yl p)
                    \<or> cap_met e u mp (length papers) rows")
        case True
        with Page nonempty
        have "fetch_loop e u mp yl start papers requests =
                Some (papers @ cap_take mp (length papers) (kept e u yl rows), requests @ [start])"
          by (subst fetch_loop.simps) (simp add: process_rows_eq)
        with off ro show ?thesis
          by (intro exI[of _ "[start]"]) simp
      next
        case False
        with "2.prems"(2) Page off ro have short: "length rows < 100" by simp
        from False have "\<not> cap_met e u mp (length papers) rows"
          and "kept e u yl rows = row_records e u rows"
          by (simp_all add: kept_all)
        then have "cap_take mp (length papers) (kept e u yl rows) = row_records e u rows"
          by (simp add: cap_take_all)
        moreover from Page nonempty False short
        have "fetch_loop e u mp yl start papers requests =
                Some (papers @ row_records e u rows, requests @ [start])"
          by (subst fetch_loop.simps) (simp add: process_rows_eq)
        ultimately show ?thesis using off ro
          by (intro exI[of _ "[start]"]) simp
      qed
    qed
  qed
next
  case (3 start off off' offs)
  from "3.prems"(1) obtain rows where off: "off = start"
    and page: "list_works e u start = Page rows" and full: "100 \<le> length rows"
    and follow: "offsets_follow (list_works e u) (start + length rows) (off' # offs)"
    by (auto split: response.splits)
  from full have nonempty: "rows \<noteq> []" by auto
  let ?T = "rows_of e u (off' # offs)"
  have ro: "rows_of e u (off # off' # offs) = rows @ ?T"
    using page off by (simp add: rows_of_def page_rows_def)
  have rb: "rows_of e u (butlast (off # off' # offs)) = rows @ rows_of e u (butlast (off' # offs))"
    using page off by (simp add: rows_of_def page_rows_def)
  show ?case
  proof (cases "(\<exists>p \<in> set (row_records e u rows). below_year_limit e yl p)
                \<or> cap_met e u mp (length papers) rows")
    case True
    with page nonempty
    have run: "fetch_loop e u mp yl start papers requests =
            Some (papers @ cap_take mp (length papers) (kept e u yl rows), requests @ [start])"
      by (subst fetch_loop.simps) (simp add: process_rows_eq)
    have "\<not> ((\<forall>p \<in> set (row_records e u (rows_of e u (butlast (off # off' # offs)))).
                \<not> below_year_limit e yl p)
             \<and> \<not> cap_met e u mp (length papers) (rows_of e u (butlast (off # off' # offs))))"
      using True cap_met_mono[of e u mp "length papers" rows "rows_of e u (butlast (off' # offs))"]
      unfolding rb by (auto simp: row_records_append)
    with run stop_result[OF True, of ?T] off show ?thesis
      unfolding ro by (intro exI[of _ "[start]"]) simp
  next
    case False
    then have ok: "\<forall>p \<in> set (row_records e u rows). \<not> below_year_limit e yl p"
      and nomet: "\<not> cap_met e u mp (length papers) rows" by simp_all
    from page nonempty full False
    have step: "fetch_loop e u mp yl start papers requests =
            fetch_loop e u mp yl (start + length rows) (papers @ row_records e u rows)
              (requests @ [start])"
      by (subst fetch_loop.simps) (simp add: process_rows_eq)
    have stop': "(case list_works e u (last (off' # offs)) of
                    Failed \<Rightarrow> True | Page rows \<Rightarrow> length rows < 100)
         \<or> (\<exists>p \<in> set (row_records e u ?T). below_year_limit e yl p)
         \<or> cap_met e u mp (length (papers @ row_records e u rows)) ?T"
    proof -
      from "3.prems"(2) consider
          "case list_works e u (last (off' # offs)) of Failed \<Rightarrow> True | Page rows \<Rightarrow> length rows < 100"
        | "\<exists>p \<in> set (row_records e u (rows @ ?T)). below_year_limit e yl p"
        | "cap_met e u mp (length papers) (rows @ ?T)"
        unfolding ro by auto
      then show ?thesis
      proof cases
        case 1
        then show ?thesis by simp
      next
        case 2
        with ok show ?thesis by (auto simp: row_records_append)
      next
        case 3
        show ?thesis
        proof (cases "?T = []")
          case True
          with 3 nomet show ?thesis by simp
        next
          case False
          with 3 show ?thesis by (simp add: cap_met_append)
        qed
      qed
    qed
    from "3.hyps"[OF page follow stop', of "requests @ [start]"] obtain reqs where
      reqs: "reqs \<noteq> []" "prefix reqs (off' # offs)"
        "fetch_loop e u mp yl (start + length rows) (papers @ row_records e u rows)
           (requests @ [start]) =
         Some ((papers @ row_records e u rows) @
                 cap_take mp (length (papers @ row_records e u rows)) (kept e u yl ?T),
               (requests @ [start]) @ reqs)"
        "(\<forall>p \<in> set (row_records e u (rows_of e u (butlast (off' # offs)))).
             \<not> below_year_limit e yl p)
          \<and> \<not> cap_met e u mp (length (papers @ row_records e u rows))
                (rows_of e u (butlast (off' # offs)))
          \<longrightarrow> reqs = off' # offs"
      by blast
    have result_eq: "papers @ cap_take mp (length papers) (kept e u yl (rows @ ?T)) =
        (papers @ row_records e u rows) @
          cap_take mp (length (papers @ row_records e u rows)) (kept e u yl ?T)"
      using ok cap_take_append[OF nomet] by (simp add: kept_append_all)
    have quiet: "reqs = off' # offs"
      if q: "(\<forall>p \<in> set (row_records e u (rows_of e u (butlast (off # off' # offs)))).
                \<not> below_year_limit e yl p)
             \<and> \<not> cap_met e u mp (length papers) (rows_of e u (butlast (off # off' # offs)))"
    proof -
      let ?B = "rows_of e u (butlast (off' # offs))"
      from q have "\<forall>p \<in> set (row_records e u ?B). \<not> below_year_limit e yl p"
        unfolding rb by (simp add: row_records_append)
      moreover have "\<not> cap_met e u mp (length (papers @ row_records e u rows)) ?B"
      proof (cases "?B = []")
        case True
        then show ?thesis by simp
      next
        case False
        with q show ?thesis unfolding rb by (simp add: cap_met_append)
      qed
      ultimately show ?thesis using reqs(4) by blast
    qed
    from reqs(1,2,3) step result_eq quiet off show ?thesis
      unfolding ro by (intro exI[of _ "start # reqs"]) simp
  qed
qed

lemma below_year_limit_iff:
  "y \<noteq> 0 \<Longrightarrow> below_year_limit e (Some y) p = year_below e y p"
  by (auto simp: below_year_limit_def year_below_def split: option.splits)

lemma kept_year_below:
  "y \<noteq> 0 \<Longrightarrow> kept e u (Some y) rows = takeWhile (\<lambda>p. \<not> year_below e y p) (row_records e u rows)"
  by (simp add: kept_def below_year_limit_iff)

section \<open>Facts about get_profile_papers\<close>

lemma get_profile_papers_fetch_loop:
  "user_of_url e purl \<noteq> [] \<Longrightarrow>
     get_profile_papers e purl mp yl = fetch_loop e (user_of_url e purl) mp yl 0 [] []"
  by (simp add: get_profile_papers_def Let_def)

lemma get_profile_papers_invariant:
  assumes "get_profile_papers e purl mp yl = Some (ps, reqs)"
  shows "prefix ps (kept e (user_of_url e purl) yl (rows_of e (user_of_url e purl) reqs))"
    and "ps = capped mp (kept e (user_of_url e purl) yl (rows_of e (user_of_url e purl) reqs))"
    and "user_of_url e purl \<noteq> [] \<Longrightarrow> offsets_follow (list_works e (user_of_url e purl)) 0 reqs"
proof -
  show exact: "ps = capped mp (kept e (user_of_url e purl) yl (rows_of e (user_of_url e purl) reqs))"
  proof (cases "user_of_url e purl = []")
    case True
    with assms show ?thesis
      by (simp add: get_profile_papers_def capped_def split: option.splits)
  next
    case False
    with assms have "fetch_loop e (user_of_url e purl) mp yl 0 [] [] = Some (ps, reqs)"
      by (simp add: get_profile_papers_fetch_loop)
    from fetch_loop_invariant[OF this] show ?thesis by (auto simp: cap_take_0)
  qed
  then show "prefix ps (kept e (user_of_url e purl) yl (rows_of e (user_of_url e purl) reqs))"
    by (simp add: capped_prefix)
  show "offsets_follow (list_works e (user_of_url e purl)) 0 reqs" if "user_of_url e purl \<noteq> []"
  proof -
    from assms that have "fetch_loop e (user_of_url e purl) mp yl 0 [] [] = Some (ps, reqs)"
      by (simp add: get_profile_papers_fetch_loop)
    from fetch_loop_invariant[OF this] show ?thesis by auto
  qed
qed

lemma get_profile_papers_total:
  assumes "user_of_url e purl \<noteq> []"
    and "offsets_follow (list_works e (user_of_url e purl)) 0 offs"
    and "(case list_works e (user_of_url e purl) (last offs) of
            Failed \<Rightarrow> True | Page rows \<Rightarrow> length rows < 100)
         \<or> (\<exists>p \<in> set (row_records e (user_of_url e purl) (rows_of e (user_of_url e purl) offs)).
               below_year_limit e yl p)
         \<or> cap_met e (user_of_url e purl) mp 0 (rows_of e (user_of_url e purl) offs)"
  shows "\<exists>reqs. reqs \<noteq> [] \<and> prefix reqs offs \<and>
           get_profile_papers e purl mp yl =
             Some (capped mp (kept e (user_of_url e purl) yl (rows_of e (user_of_url e purl) offs)),
                   reqs) \<and>
           ((\<forall>p \<in> set (row_records e (user_of_url e purl)
                             (rows_of e (user_of_url e purl) (butlast offs))).
                \<not> below_year_limit e yl p)
            \<and> \<not> cap_met e (user_of_url e purl) mp 0 (rows_of e (user_of_url e purl) (butlast offs))
            \<longrightarrow> reqs = offs)"
  using fetch_loop_total[of e "user_of_url e purl" 0 offs yl mp "[]" "[]"] assms
  by (simp add: get_profile_papers_fetch_loop cap_take_0)

lemma get_profile_papers_returns:
  assumes "\<forall>off \<ge> bound. (case list_works e (user_of_url e purl) off of
                              Failed \<Rightarrow> True | Page rs \<Rightarrow> length rs < 100)"
  shows "\<exists>res. get_profile_papers e purl mp yl = Some res"
  using fetch_loop_returns[OF assms, of mp yl 0 "[]" "[]"]
  by (auto simp: get_profile_papers_def Let_def)

section \<open>Facts about dictionaries and extract_paper_info\<close>

lemma dict_get_set: "dict_get (dict_set k v d) k' = (if k' = k then Some v else dict_get d k')"
  by (simp add: dict_get_def dict_set_def update_conv')

lemma dict_get_Nil [simp]: "dict_get [] k = None"
  by (simp add: dict_get_def)

lemmas extract_defs =
  extract_paper_info_def extract_year_def extract_citations_def extract_gray_def
  extract_title_def

lemma takeWhile_prefix_set:
  "prefix ps (takeWhile P xs) \<Longrightarrow> p \<in> set ps \<Longrightarrow> P p"
  by (meson set_mono_prefix set_takeWhileD subsetD)

lemma year_below_iff:
  "\<not> year_below e y p \<longleftrightarrow>
     (\<forall>s v. dict_get p ''year'' = Some s \<longrightarrow> s \<noteq> [] \<longrightarrow> int_of_str e s = Some v \<longrightarrow> y \<le> v)"
  by (auto simp: year_below_def split: option.splits)

lemma extract_row_with_year:
  "extract_paper_info (world pages details) (row_with_year y) u = paper_of_year y"
  by (simp add: extract_defs row_with_year_def paper_of_year_def world_def dict_set_def
        base_url_def Let_def)

lemma get_extract_year:
  "dict_get (extract_year c d) key =
     (case c of Some (Some t) \<Rightarrow> (if key = ''year'' then Some t else dict_get d key)
      | _ \<Rightarrow> dict_get d key)"
  by (simp add: extract_year_def dict_get_set split: option.splits)

lemma get_extract_citations:
  "dict_get (extract_citations c d) key =
     (case c of None \<Rightarrow> dict_get d key
      | Some None \<Rightarrow> (if key = ''citations'' then Some ''0'' else dict_get d key)
      | Some (Some t) \<Rightarrow> (if key = ''citations'' then Some t else dict_get d key))"
  by (simp add: extract_citations_def dict_get_set split: option.splits)

lemma get_extract_gray:
  "dict_get (extract_gray divs d) key =
     (case divs of
        [] \<Rightarrow> dict_get d key
      | [a] \<Rightarrow> (if key = ''authors'' then Some a else dict_get d key)
      | a # v # rest \<Rightarrow>
          (if key = ''venue'' then Some v
           else if key = ''authors'' then Some a else dict_get d key))"
  by (simp add: extract_gray_def dict_get_set Let_def split: list.splits)

lemma get_extract_title:
  "extract_title e l d =
     (case l of
        None \<Rightarrow> Inr d
      | Some a \<Rightarrow>
          (case link_href a of
             None \<Rightarrow> Inr (dict_set ''title'' (link_text a) d)
           | Some h \<Rightarrow>
               if h = [] then Inr (dict_set ''title'' (link_text a) d)
               else (case urljoin e base_url h of
                       None \<Rightarrow> Inl (dict_set ''title'' (link_text a) d)
                     | Some v \<Rightarrow>
                         Inr (dict_set ''detail_url'' v (dict_set ''title'' (link_text a) d)))))"
  by (simp add: extract_title_def Let_def split: option.splits)

lemma extract_fields:
  "dict_get (extract_paper_info e r u) key = extractable e r key"
proof (cases "title_td r")
  case None
  then show ?thesis
    by (simp add: extract_paper_info_def get_extract_year get_extract_citations
          extractable_def cut_short_def split: option.splits)
next
  case (Some tc)
  show ?thesis
  proof (cases "extract_title e (cell_link tc) []")
    case (Inl raised)
    then have "cut_short e r \<and> (\<exists>a. cell_link tc = Some a \<and> raised = [(''title'', link_text a)])"
      using Some
      by (auto simp: get_extract_title cut_short_def dict_set_def split: option.splits if_splits)
    with Some Inl show ?thesis
      by (auto simp: extract_paper_info_def extractable_def dict_get_def)
  next
    case (Inr d)
    then have nc: "\<not> cut_short e r" using Some
      by (auto simp: get_extract_title cut_short_def split: option.splits if_splits)
    have d: "dict_get d k = (if k = ''title'' then map_option link_text (cell_link tc)
        else if k = ''detail_url'' then
          (case cell_link tc of None \<Rightarrow> None
           | Some l \<Rightarrow> (case link_href l of None \<Rightarrow> None
               | Some h \<Rightarrow> if h = [] then None else urljoin e base_url h))
        else None)" for k
      using Inr by (auto simp: get_extract_title dict_get_set split: option.splits if_splits)
    from Some Inr nc show ?thesis
      by (simp add: extract_paper_info_def get_extract_year get_extract_citations
            get_extract_gray d extractable_def split: option.splits list.splits)
  qed
qed

lemma dict_empty_iff: "d = [] \<longleftrightarrow> (\<forall>k. dict_get d k = None)"
  by (cases d) (auto simp: dict_get_def)

lemma row_records_nonempty: "p \<in> set (row_records e u rows) \<Longrightarrow>
   p \<noteq> [] \<and> (\<exists>r \<in> set rows. p = extract_paper_info e r u)"
  by (auto simp: row_records_def)

lemma row_records_all:
  "\<forall>r \<in> set rows. extract_paper_info e r u \<noteq> [] \<Longrightarrow>
     row_records e u rows = map (\<lambda>r. extract_paper_info e r u) rows"
  by (simp add: row_records_def)

section \<open>Facts about a cap of zero\<close>

lemma process_rows_zero_cap:
  "process_rows e u (Some 0) yl rows ps = process_rows e u None yl rows ps"
  by (induction rows arbitrary: ps) (simp_all add: cap_reached_def Let_def)

lemma fetch_loop_same_rows:
  assumes "fetch_loop e u mp yl start papers requests = Some res"
    and "\<forall>rows ps. process_rows e u mp yl rows ps = process_rows e u mp' yl' rows ps"
  shows "fetch_loop e u mp' yl' start papers requests = Some res"
  using assms
proof (induction e u mp yl start papers requests res rule: fetch_loop_induct)
  case (step loop e u mp yl start papers requests res)
  show ?case
  proof (cases "list_works e u start")
    case Failed
    with step.hyps show ?thesis by (subst fetch_loop.simps) simp
  next
    case (Page rows)
    show ?thesis
    proof (cases "process_rows e u mp yl rows papers")
      case (Return ps)
      with step.hyps step.prems Page show ?thesis
        by (subst fetch_loop.simps) (simp split: if_splits)
    next
      case (Continue ps)
      show ?thesis
      proof (cases "rows = [] \<or> length rows < 100")
        case True
        with step.hyps step.prems Page Continue show ?thesis
          by (subst fetch_loop.simps) (auto split: if_splits)
      next
        case False
        with step.hyps Page Continue
        have "loop e u mp yl (start + length rows) ps (requests @ [start]) = Some res"
          by simp
        from step.IH[OF this step.prems] False step.prems Page Continue show ?thesis
          by (subst fetch_loop.simps) auto
      qed
    qed
  qed
qed

lemma fetch_loop_cong:
  assumes "\<forall>rows ps. process_rows e u mp yl rows ps = process_rows e u mp' yl' rows ps"
  shows "fetch_loop e u mp yl start papers requests = fetch_loop e u mp' yl' start papers requests"
proof (cases "fetch_loop e u mp yl start papers requests")
  case (Some res)
  from fetch_loop_same_rows[OF this assms] Some show ?thesis by simp
next
  case None
  show ?thesis
  proof (cases "fetch_loop e u mp' yl' start papers requests")
    case (Some res)
    from assms have "\<forall>rows ps. process_rows e u mp' yl' rows ps = process_rows e u mp yl rows ps"
      by simp
    from fetch_loop_same_rows[OF Some this] None show ?thesis by simp
  next
    case none: None
    with None show ?thesis by simp
  qed
qed

lemma fetch_loop_zero_cap:
  "fetch_loop e u (Some 0) yl start papers requests = fetch_loop e u None yl start papers requests"
  by (rule fetch_loop_cong) (simp add: process_rows_zero_cap)

lemma process_rows_zero_year:
  "process_rows e u mp (Some 0) rows ps = process_rows e u mp None rows ps"
  by (induction rows arbitrary: ps) (simp_all add: below_year_limit_def Let_def)

lemma get_profile_papers_zero_year:
  "get_profile_papers e purl mp (Some 0) = get_profile_papers e purl mp None"
  by (simp add: get_profile_papers_def Let_def fetch_loop_cong[of e _ mp "Some 0" mp None]
        process_rows_zero_year)

lemma get_profile_papers_zero_cap:
  "get_profile_papers e purl (Some 0) yl = get_profile_papers e purl None yl"
  by (simp add: get_profile_papers_def fetch_loop_zero_cap Let_def)

lemma enrich_Nil: "0 < nw \<Longrightarrow> enrich e nw [] = Inr []"
  by (simp add: enrich_def assemble_def)


section \<open>Facts about the enrichment stage\<close>

lemma dict_update_get_other:
  "k \<notin> fst ` set other \<Longrightarrow> dict_get (dict_update d other) k = dict_get d k"
proof (induction other arbitrary: d)
  case Nil
  then show ?case by (simp add: dict_update_def)
next
  case (Cons kv other)
  then have "dict_get (dict_update (dict_set (fst kv) (snd kv) d) other) k =
             dict_get (dict_set (fst kv) (snd kv) d) k"
    by simp
  with Cons.prems show ?case by (simp add: dict_update_def dict_get_set)
qed

lemma store_results_untouched:
  "store_results slots rs = Inr out \<Longrightarrow> i \<notin> snd ` set rs \<Longrightarrow> out ! i = slots ! i"
proof (induction rs arbitrary: slots)
  case Nil
  then show ?case by simp
next
  case (Cons r rs)
  from Cons.prems have "store_results (slots[snd r := Some (fst r)]) rs = Inr out"
    and "i \<noteq> snd r" "i \<notin> snd ` set rs"
    by (auto split: if_splits)
  with Cons.IH[of "slots[snd r := Some (fst r)]"] show ?case by simp
qed

lemma store_results_nth:
  assumes "store_results slots rs = Inr out" "distinct (map snd rs)" "(p, i) \<in> set rs"
  shows "out ! i = Some p"
  using assms
proof (induction rs arbitrary: slots)
  case Nil
  then show ?case by simp
next
  case (Cons r rs)
  from Cons.prems(1) have next_step: "store_results (slots[snd r := Some (fst r)]) rs = Inr out"
    and inside: "snd r < length slots"
    by (auto split: if_splits)
  show ?case
  proof (cases "(p, i) \<in> set rs")
    case True
    with Cons.IH[OF next_step] Cons.prems show ?thesis by simp
  next
    case False
    with Cons.prems have r: "r = (p, i)" by auto
    with Cons.prems have fresh: "i \<notin> snd ` set rs" by simp
    from store_results_untouched[OF next_step fresh] inside r show ?thesis by simp
  qed
qed

lemma store_results_returns:
  "\<forall>res \<in> set rs. snd res < length slots \<Longrightarrow>
     \<exists>out. store_results slots rs = Inr out \<and> length out = length slots"
proof (induction rs arbitrary: slots)
  case Nil
  then show ?case by simp
next
  case (Cons r rs)
  then have inside: "snd r < length slots"
    and "\<forall>res \<in> set rs. snd res < length (slots[snd r := Some (fst r)])"
    by simp_all
  from Cons.IH[OF this(2)] inside show ?case by simp
qed

lemma process_paper_snd [simp]: "snd (process_paper e pd) = snd pd"
  by (simp add: process_paper_def Let_def split: option.splits)

lemma assemble_any_order:
  assumes "mset results = mset (map (process_paper e) (zip S [0 ..< length S]))"
  shows "assemble (length S) results =
           Inr (map (\<lambda>i. Some (fst (process_paper e (S ! i, i)))) [0 ..< length S])"
proof -
  have "mset (map snd results) = mset (map snd (map (process_paper e) (zip S [0 ..< length S])))"
    using assms by (metis mset_map)
  also have "map snd (map (process_paper e) (zip S [0 ..< length S])) = [0 ..< length S]"
    by (simp add: comp_def map_snd_zip[unfolded comp_def])
  finally have indices: "mset (map snd results) = mset [0 ..< length S]" .
  then have d: "distinct (map snd results)"
    by (metis distinct_upt mset_eq_imp_distinct_iff)
  from indices have range: "set (map snd results) = set [0 ..< length S]"
    by (rule mset_eq_setD)
  have "\<forall>res \<in> set results. snd res < length (replicate (length S) (None :: pydict option))"
  proof
    fix res assume "res \<in> set results"
    then have "snd res \<in> set (map snd results)" by simp
    also note range
    finally show "snd res < length (replicate (length S) (None :: pydict option))" by simp
  qed
  from store_results_returns[OF this] obtain out where
    out: "store_results (replicate (length S) None) results = Inr out" "length out = length S"
    by auto
  have "out = map (\<lambda>i. Some (fst (process_paper e (S ! i, i)))) [0 ..< length S]"
  proof (rule nth_equalityI)
    show "length out = length (map (\<lambda>i. Some (fst (process_paper e (S ! i, i)))) [0 ..< length S])"
      using out(2) by simp
    fix i assume "i < length out"
    with out(2) have i: "i < length S" by simp
    then have "(S ! i, i) \<in> set (zip S [0 ..< length S])"
      by (auto simp: set_zip)
    then have "process_paper e (S ! i, i) \<in> set (map (process_paper e) (zip S [0 ..< length S]))"
      by simp
    then have "process_paper e (S ! i, i) \<in> set results"
      using assms by (metis mset_eq_setD)
    then have "(fst (process_paper e (S ! i, i)), i) \<in> set results"
      by (metis prod.collapse process_paper_snd snd_conv)
    from store_results_nth[OF out(1) d this] i
    show "out ! i = map (\<lambda>i. Some (fst (process_paper e (S ! i, i)))) [0 ..< length S] ! i"
      by simp
  qed
  with out(1) show ?thesis by (simp add: assemble_def)
qed

section \<open>Facts about whole listings\<close>

lemma rows_of_butlast:
  "offs \<noteq> [] \<Longrightarrow> rows_of e u offs = rows_of e u (butlast offs) @ page_rows e u (last offs)"
proof -
  assume "offs \<noteq> []"
  then have "rows_of e u offs = rows_of e u (butlast offs @ [last offs])" by simp
  then show ?thesis by (simp only: rows_of_def map_append concat_append) simp
qed

lemma offsets_follow_nonempty: "offsets_follow get start offs \<Longrightarrow> offs \<noteq> []"
  by (cases offs) auto

lemma capped_positive: "0 < n \<Longrightarrow> capped (Some n) xs = take (nat n) xs"
  by (simp add: capped_def)

lemma get_profile_papers_all_pages:
  assumes "user_of_url e purl \<noteq> []"
    and "offsets_follow (list_works e (user_of_url e purl)) 0 offs"
    and "case list_works e (user_of_url e purl) (last offs) of
           Failed \<Rightarrow> True | Page rows \<Rightarrow> length rows < 100"
    and "\<forall>p \<in> set (row_records e (user_of_url e purl) (rows_of e (user_of_url e purl) offs)).
           \<not> below_year_limit e yl p"
    and "\<not> cap_met e (user_of_url e purl) mp 0 (rows_of e (user_of_url e purl) offs)"
  shows "get_profile_papers e purl mp yl =
           Some (row_records e (user_of_url e purl) (rows_of e (user_of_url e purl) offs), offs)"
proof -
  let ?u = "user_of_url e purl"
  from assms(2) have ne: "offs \<noteq> []" by (rule offsets_follow_nonempty)
  note split = rows_of_butlast[OF ne, of e ?u]
  from get_profile_papers_total[OF assms(1,2), of yl mp] assms(3) obtain reqs where
    run: "get_profile_papers e purl mp yl = Some (capped mp (kept e ?u yl (rows_of e ?u offs)), reqs)"
    and quiet: "(\<forall>p \<in> set (row_records e ?u (rows_of e ?u (butlast offs))). \<not> below_year_limit e yl p)
            \<and> \<not> cap_met e ?u mp 0 (rows_of e ?u (butlast offs)) \<longrightarrow> reqs = offs"
    by auto
  have "\<forall>p \<in> set (row_records e ?u (rows_of e ?u (butlast offs))). \<not> below_year_limit e yl p"
    using assms(4) unfolding split by (simp add: row_records_append)
  moreover have "\<not> cap_met e ?u mp 0 (rows_of e ?u (butlast offs))"
    using assms(5) cap_met_mono[of e ?u mp 0 "rows_of e ?u (butlast offs)" "page_rows e ?u (last offs)"]
    unfolding split by blast
  ultimately have "reqs = offs" using quiet by blast
  moreover have "capped mp (kept e ?u yl (rows_of e ?u offs)) = row_records e ?u (rows_of e ?u offs)"
    using assms(4,5) cap_take_all[of e ?u mp 0] by (simp add: kept_all cap_take_0)
  ultimately show ?thesis using run by simp
qed

lemma cap_not_met:
  "uncapped mp \<or> (\<exists>n. mp = Some n \<and> int (length rows) \<le> n) \<Longrightarrow> \<not> cap_met e u mp 0 rows"
proof -
  have "length (row_records e u (butlast rows)) \<le> length (butlast rows)"
    unfolding row_records_def by (metis length_filter_le length_map)
  then have "rows \<noteq> [] \<Longrightarrow> length (row_records e u (butlast rows)) < length rows"
    by (cases rows) auto
  then show "uncapped mp \<or> (\<exists>n. mp = Some n \<and> int (length rows) \<le> n) \<Longrightarrow> \<not> cap_met e u mp 0 rows"
    by (auto simp: cap_met_def uncapped_def split: option.splits)
qed

lemma two_page_listing:
  assumes "user_of_url e purl = uid" "uid \<noteq> []"
    and "list_works e uid 0 = Page rows1" "length rows1 = 100"
    and "list_works e uid 100 = Page rows2" "length rows2 = 37"
    and "\<forall>p \<in> set (row_records e uid (rows1 @ rows2)). \<not> below_year_limit e yl p"
    and "uncapped mp \<or> (\<exists>n. mp = Some n \<and> 137 \<le> n)"
  shows "get_profile_papers e purl mp yl = Some (row_records e uid (rows1 @ rows2), [0, 100])"
proof -
  have ro: "rows_of e uid [0, 100] = rows1 @ rows2"
    using assms(3,5) by (simp add: rows_of_def page_rows_def)
  have "get_profile_papers e purl mp yl =
          Some (row_records e (user_of_url e purl) (rows_of e (user_of_url e purl) [0, 100]), [0, 100])"
  proof (rule get_profile_papers_all_pages)
    show "user_of_url e purl \<noteq> []" using assms(1,2) by simp
    show "offsets_follow (list_works e (user_of_url e purl)) 0 [0, 100]"
      using assms(1,3,4) by simp
    show "case list_works e (user_of_url e purl) (last [0, 100]) of
            Failed \<Rightarrow> True | Page rows \<Rightarrow> length rows < 100"
      using assms(1,5,6) by simp
    show "\<forall>p \<in> set (row_records e (user_of_url e purl) (rows_of e (user_of_url e purl) [0, 100])).
            \<not> below_year_limit e yl p"
      using assms(1,7) ro by simp
    show "\<not> cap_met e (user_of_url e purl) mp 0 (rows_of e (user_of_url e purl) [0, 100])"
      using assms(1,4,6,8) ro by (intro cap_not_met) auto
  qed
  with assms(1) ro show ?thesis by simp
qed

lemma row_records_replicate:
  "extract_paper_info e r u = p \<Longrightarrow> p \<noteq> [] \<Longrightarrow> row_records e u (replicate n r) = replicate n p"
  by (simp add: row_records_def)

lemma prefix_single: "reqs \<noteq> [] \<Longrightarrow> prefix reqs [x] \<Longrightarrow> reqs = [x]"
  by (cases reqs) auto

section \<open>The claims\<close>

text \<open>
  C1, as amended. For every non-zero \<open>year_limit = y\<close> and every cap: every item
  returned whose year text is non-empty and parses as an integer is \<open>>= y\<close> (\<open>int\<close>
  rejects the empty text, and then the same holds of every year text that parses); the
  result is exactly what the cap leaves of the records that precede the first record,
  in source order across the requested pages, whose year parses as an integer below
  \<open>y\<close>; and when the paging rule leads through pages that hold such a record,
  get_profile_papers returns that result and requests none but these pages, all of them
  when neither such a record nor the meeting of the cap comes before the last one. A
  \<open>year_limit\<close> of 0 behaves as no year limit.
\<close>

theorem year_limit_short_circuit:
  assumes "user_of_url e purl = uid"
  shows "(y \<noteq> 0 \<longrightarrow>
           (\<forall>ps reqs. get_profile_papers e purl mp (Some y) = Some (ps, reqs) \<longrightarrow>
              (\<forall>p \<in> set ps. \<forall>s v. dict_get p ''year'' = Some s \<longrightarrow> s \<noteq> [] \<longrightarrow>
                  int_of_str e s = Some v \<longrightarrow> y \<le> v)
            \<and> (int_of_str e [] = None \<longrightarrow>
                  (\<forall>p \<in> set ps. \<forall>s v. dict_get p ''year'' = Some s \<longrightarrow>
                      int_of_str e s = Some v \<longrightarrow> y \<le> v))
            \<and> ps = capped mp (takeWhile (\<lambda>p. \<not> year_below e y p)
                                (row_records e uid (rows_of e uid reqs))))
         \<and> (uid \<noteq> [] \<and> offsets_follow (list_works e uid) 0 offs
              \<and> (\<exists>p \<in> set (row_records e uid (rows_of e uid offs)). year_below e y p)
            \<longrightarrow> (\<exists>reqs. reqs \<noteq> [] \<and> prefix reqs offs
                   \<and> get_profile_papers e purl mp (Some y) =
                       Some (capped mp (takeWhile (\<lambda>p. \<not> year_below e y p)
                                          (row_records e uid (rows_of e uid offs))), reqs)
                   \<and> ((\<forall>p \<in> set (row_records e uid (rows_of e uid (butlast offs))).
                           \<not> year_below e y p)
                        \<and> \<not> cap_met e uid mp 0 (rows_of e uid (butlast offs))
                       \<longrightarrow> reqs = offs))))
       \<and> get_profile_papers e purl mp (Some 0) = get_profile_papers e purl mp None"
proof (intro conjI impI allI)
  fix ps reqs
  assume nz: "y \<noteq> 0" and run: "get_profile_papers e purl mp (Some y) = Some (ps, reqs)"
  from get_profile_papers_invariant(2)[OF run] nz assms
  show exact: "ps = capped mp (takeWhile (\<lambda>p. \<not> year_below e y p)
                                (row_records e uid (rows_of e uid reqs)))"
    by (simp add: kept_year_below)
  have nb: "\<not> year_below e y p" if "p \<in> set ps" for p
    using takeWhile_prefix_set[OF _ that, of "\<lambda>p. \<not> year_below e y p"] capped_prefix exact
    by metis
  show "\<forall>p \<in> set ps. \<forall>s v. dict_get p ''year'' = Some s \<longrightarrow> s \<noteq> [] \<longrightarrow>
          int_of_str e s = Some v \<longrightarrow> y \<le> v"
    using nb by (simp add: year_below_iff)
  assume "int_of_str e [] = None"
  then show "\<forall>p \<in> set ps. \<forall>s v. dict_get p ''year'' = Some s \<longrightarrow>
               int_of_str e s = Some v \<longrightarrow> y \<le> v"
    using nb by (metis option.distinct(1) year_below_iff)
next
  assume nz: "y \<noteq> 0"
    and a: "uid \<noteq> [] \<and> offsets_follow (list_works e uid) 0 offs
              \<and> (\<exists>p \<in> set (row_records e uid (rows_of e uid offs)). year_below e y p)"
  from get_profile_papers_total[of e purl offs "Some y" mp] a assms nz
  show "\<exists>reqs. reqs \<noteq> [] \<and> prefix reqs offs
          \<and> get_profile_papers e purl mp (Some y) =
              Some (capped mp (takeWhile (\<lambda>p. \<not> year_below e y p)
                                 (row_records e uid (rows_of e uid offs))), reqs)
          \<and> ((\<forall>p \<in> set (row_records e uid (rows_of e uid (butlast offs))).
                  \<not> year_below e y p)
               \<and> \<not> cap_met e uid mp 0 (rows_of e uid (butlast offs))
              \<longrightarrow> reqs = offs)"
    by (simp add: below_year_limit_iff kept_year_below)
next
  show "get_profile_papers e purl mp (Some 0) = get_profile_papers e purl mp None"
    by (rule get_profile_papers_zero_year)
qed

text \<open>
  The scenario of C1 under the cap 20: rows with the years 2021, 2020, 2019, 2022 and
  the limit 2020 give exactly the 2021 and 2020 items.
\<close>

theorem year_limit_short_circuit_witness:
  "(2020::int) \<noteq> 0
   \<and> get_profile_papers (world years_listing no_details) ''/citations?user=u1''
         (Some 20) (Some 2020) =
       Some ([paper_of_year ''2021'', paper_of_year ''2020''], [0])
   \<and> int_of_str (world years_listing no_details) ''2019'' = Some 2019"
proof -
  let ?w = "world years_listing no_details"
  have nz: "(2020::int) \<noteq> 0" by simp
  have uid: "user_of_url ?w ''/citations?user=u1'' = ''u1''" by (simp add: world_def)
  have tw: "capped (Some 20) (takeWhile (\<lambda>p. \<not> year_below ?w 2020 p)
              (row_records ?w ''u1'' (rows_of ?w ''u1'' [0]))) =
            [paper_of_year ''2021'', paper_of_year ''2020'']"
    by code_simp
  have pre: "''u1'' \<noteq> [] \<and> offsets_follow (list_works ?w ''u1'') 0 [0]
       \<and> (\<exists>p \<in> set (row_records ?w ''u1'' (rows_of ?w ''u1'' [0])). year_below ?w 2020 p)"
    by code_simp
  have quiet: "(\<forall>p \<in> set (row_records ?w ''u1'' (rows_of ?w ''u1'' (butlast [0]))).
                  \<not> year_below ?w 2020 p)
               \<and> \<not> cap_met ?w ''u1'' (Some 20) 0 (rows_of ?w ''u1'' (butlast [0]))"
    by simp
  from year_limit_short_circuit[OF uid, of 2020 "Some 20" "[0]"] nz pre quiet
  have run: "get_profile_papers ?w ''/citations?user=u1'' (Some 20) (Some 2020) =
       Some ([paper_of_year ''2021'', paper_of_year ''2020''], [0])"
    unfolding tw by blast
  have "int_of_str ?w ''2019'' = Some 2019" by code_simp
  with nz run show ?thesis by simp
qed

text \<open>
  C1 as stated fails for \<open>year_limit = 0\<close>: the limit is falsy, and a row whose year
  text is \<open>-1\<close> is returned although \<open>-1 < 0\<close>.
\<close>

theorem year_limit_zero_counterexample:
  "get_profile_papers (world negative_year_listing no_details) ''/citations?user=u1'' None (Some 0) =
       Some ([paper_of_year ''-1''], [0])
   \<and> dict_get (paper_of_year ''-1'') ''year'' = Some ''-1''
   \<and> int_of_str (world negative_year_listing no_details) ''-1'' = Some (- 1)
   \<and> \<not> (0::int) \<le> - 1"
  by code_simp

text \<open>
  C2, as amended. For every positive \<open>max_papers = n\<close>: whatever get_profile_papers
  returns is exactly the first \<open>n\<close> of the records that the rows requested give up to
  the first one failing the year check (all of them when they are fewer), so at most
  \<open>n\<close> items and no partial row; once the rows before the last row of the pages that the
  paging rule leads through have given \<open>n\<close> records, it returns that result and requests
  none but these pages, all of them when neither a record failing the year check nor the
  meeting of the cap comes before the last one; and it returns whenever, from some
  offset on, the server answers no full page. A \<open>max_papers\<close> of 0 behaves as no cap.
\<close>

theorem max_papers_cap:
  assumes "user_of_url e purl = uid"
  shows "(0 < n \<longrightarrow>
           (\<forall>ps reqs. get_profile_papers e purl (Some n) yl = Some (ps, reqs) \<longrightarrow>
              int (length ps) \<le> n
            \<and> ps = take (nat n) (kept e uid yl (rows_of e uid reqs)))
         \<and> (uid \<noteq> [] \<and> offsets_follow (list_works e uid) 0 offs
              \<and> n \<le> int (length (row_records e uid (butlast (rows_of e uid offs))))
            \<longrightarrow> (\<exists>reqs. reqs \<noteq> [] \<and> prefix reqs offs
                   \<and> get_profile_papers e purl (Some n) yl =
                       Some (take (nat n) (kept e uid yl (rows_of e uid offs)), reqs)
                   \<and> ((\<forall>p \<in> set (row_records e uid (rows_of e uid (butlast offs))).
                           \<not> below_year_limit e yl p)
                        \<and> \<not> cap_met e uid (Some n) 0 (rows_of e uid (butlast offs))
                       \<longrightarrow> reqs = offs)))
         \<and> ((\<exists>bound. \<forall>off \<ge> bound. (case list_works e uid off of
                                         Failed \<Rightarrow> True | Page rs \<Rightarrow> length rs < 100))
            \<longrightarrow> (\<exists>res. get_profile_papers e purl (Some n) yl = Some res)))
       \<and> get_profile_papers e purl (Some 0) yl = get_profile_papers e purl None yl"
proof (intro conjI impI allI)
  fix ps reqs
  assume pos: "0 < n" and run: "get_profile_papers e purl (Some n) yl = Some (ps, reqs)"
  from get_profile_papers_invariant(2)[OF run] pos assms
  show exact: "ps = take (nat n) (kept e uid yl (rows_of e uid reqs))"
    by (simp add: capped_positive)
  then have "length ps \<le> nat n" by simp
  with pos show "int (length ps) \<le> n" by linarith
next
  assume pos: "0 < n"
    and a: "uid \<noteq> [] \<and> offsets_follow (list_works e uid) 0 offs
              \<and> n \<le> int (length (row_records e uid (butlast (rows_of e uid offs))))"
  with pos have "rows_of e uid offs \<noteq> []" by auto
  with pos a have "cap_met e uid (Some n) 0 (rows_of e uid offs)"
    by (simp add: cap_met_def)
  with get_profile_papers_total[of e purl offs yl "Some n"] a assms pos
  show "\<exists>reqs. reqs \<noteq> [] \<and> prefix reqs offs
          \<and> get_profile_papers e purl (Some n) yl =
              Some (take (nat n) (kept e uid yl (rows_of e uid offs)), reqs)
          \<and> ((\<forall>p \<in> set (row_records e uid (rows_of e uid (butlast offs))).
                  \<not> below_year_limit e yl p)
               \<and> \<not> cap_met e uid (Some n) 0 (rows_of e uid (butlast offs))
              \<longrightarrow> reqs = offs)"
    by (auto simp: capped_positive)
next
  assume "\<exists>bound. \<forall>off \<ge> bound. (case list_works e uid off of
                                     Failed \<Rightarrow> True | Page rs \<Rightarrow> length rs < 100)"
  then obtain bound where "\<forall>off \<ge> bound. (case list_works e (user_of_url e purl) off of
                                     Failed \<Rightarrow> True | Page rs \<Rightarrow> length rs < 100)"
    using assms by auto
  from get_profile_papers_returns[OF this]
  show "\<exists>res. get_profile_papers e purl (Some n) yl = Some res" .
next
  show "get_profile_papers e purl (Some 0) yl = get_profile_papers e purl None yl"
    by (rule get_profile_papers_zero_cap)
qed

theorem max_papers_cap_witness:
  "(0::int) < 3
   \<and> get_profile_papers (world years_listing no_details) ''/citations?user=u1'' (Some 3) None =
       Some ([paper_of_year ''2021'', paper_of_year ''2020'', paper_of_year ''2019''], [0])
   \<and> int (length [paper_of_year ''2021'', paper_of_year ''2020'', paper_of_year ''2019'']) \<le> 3"
proof -
  let ?w = "world years_listing no_details"
  have pos: "(0::int) < 3" by simp
  have uid: "user_of_url ?w ''/citations?user=u1'' = ''u1''" by (simp add: world_def)
  have tk: "take (nat 3) (kept ?w ''u1'' None (rows_of ?w ''u1'' [0])) =
              [paper_of_year ''2021'', paper_of_year ''2020'', paper_of_year ''2019'']"
    by code_simp
  have pre: "''u1'' \<noteq> [] \<and> offsets_follow (list_works ?w ''u1'') 0 [0]
       \<and> 3 \<le> int (length (row_records ?w ''u1'' (butlast (rows_of ?w ''u1'' [0]))))"
    by code_simp
  from max_papers_cap[OF uid, of 3 None "[0]"] pos pre
  obtain reqs where "reqs \<noteq> []" "prefix reqs [0]"
    "get_profile_papers ?w ''/citations?user=u1'' (Some 3) None =
       Some ([paper_of_year ''2021'', paper_of_year ''2020'', paper_of_year ''2019''], reqs)"
    unfolding tk by blast
  with prefix_single[of reqs 0] pos show ?thesis by simp
qed

text \<open>
  C2 as stated fails for \<open>max_papers = 0\<close>: the cap is falsy, and one listed row gives
  one item.
\<close>

theorem max_papers_zero_counterexample:
  "get_profile_papers (world (single_page [row_with_year ''2021'']) no_details)
       ''/citations?user=u1'' (Some 0) None = Some ([paper_of_year ''2021''], [0])
   \<and> \<not> int (length [paper_of_year ''2021'']) \<le> 0"
  by code_simp

text \<open>
  C3, as amended. For a positive worker count, the enrichment stage returns a list of
  the length of its input whose item at every index \<open>i\<close> is the enrichment of the
  input item at \<open>i\<close>, in whatever order the results arrive; the title at \<open>i\<close> is that of
  the input whenever the details merged into the item have no field labelled \<open>title\<close>.
\<close>

theorem enrichment_order:
  assumes "0 < nw"
  shows "enrich e nw S = Inr (map (\<lambda>i. Some (fst (process_paper e (S ! i, i)))) [0 ..< length S])
       \<and> length (map (\<lambda>i. Some (fst (process_paper e (S ! i, i)))) [0 ..< length S]) = length S
       \<and> (\<forall>results. mset results = mset (map (process_paper e) (zip S [0 ..< length S])) \<longrightarrow>
             assemble (length S) results =
               Inr (map (\<lambda>i. Some (fst (process_paper e (S ! i, i)))) [0 ..< length S]))
       \<and> (\<forall>i < length S.
             (\<forall>u. dict_get (S ! i) ''detail_url'' = Some u \<longrightarrow>
                    ''title'' \<notin> fst ` set (paper_details e i u)) \<longrightarrow>
             dict_get (fst (process_paper e (S ! i, i))) ''title'' = dict_get (S ! i) ''title'')"
proof (intro conjI allI impI)
  show "enrich e nw S = Inr (map (\<lambda>i. Some (fst (process_paper e (S ! i, i)))) [0 ..< length S])"
    using assms assemble_any_order[OF refl, of S e] by (simp add: enrich_def Let_def)
  show "length (map (\<lambda>i. Some (fst (process_paper e (S ! i, i)))) [0 ..< length S]) = length S"
    by simp
next
  fix results
  assume "mset results = mset (map (process_paper e) (zip S [0 ..< length S]))"
  then show "assemble (length S) results =
               Inr (map (\<lambda>i. Some (fst (process_paper e (S ! i, i)))) [0 ..< length S])"
    by (rule assemble_any_order)
next
  fix i
  assume "i < length S"
    and "\<forall>u. dict_get (S ! i) ''detail_url'' = Some u \<longrightarrow>
               ''title'' \<notin> fst ` set (paper_details e i u)"
  then show "dict_get (fst (process_paper e (S ! i, i))) ''title'' = dict_get (S ! i) ''title''"
    by (simp add: process_paper_def Let_def dict_update_get_other split: option.splits)
qed


theorem enrichment_order_witness:
  "(0::int) < 4
   \<and> enrich (world years_listing abstract_details) 4 [paper_of_year ''2021'', [(''title'', ''P'')]] =
       Inr [Some (paper_of_year ''2021'' @ [(''abstract'', ''Text''), (''Journal'', ''J'')]),
            Some [(''title'', ''P'')]]
   \<and> assemble 2 [([(''title'', ''P'')], 1),
                  (paper_of_year ''2021'' @ [(''abstract'', ''Text''), (''Journal'', ''J'')], 0)] =
       Inr [Some (paper_of_year ''2021'' @ [(''abstract'', ''Text''), (''Journal'', ''J'')]),
            Some [(''title'', ''P'')]]
   \<and> dict_get (paper_of_year ''2021'' @ [(''abstract'', ''Text''), (''Journal'', ''J'')]) ''title'' =
       dict_get (paper_of_year ''2021'') ''title''"
proof -
  let ?w = "world years_listing abstract_details"
  let ?S = "[paper_of_year ''2021'', [(''title'', ''P'')]]"
  let ?p = "paper_of_year ''2021'' @ [(''abstract'', ''Text''), (''Journal'', ''J'')]"
  have pos: "(0::int) < 4" by simp
  have p0: "process_paper ?w (paper_of_year ''2021'', 0) = (?p, 0)" by code_simp
  have p1: "process_paper ?w ([(''title'', ''P'')], Suc 0) = ([(''title'', ''P'')], Suc 0)"
    by code_simp
  have upt2: "[0 ..< length ?S] = [0, Suc 0]" by (simp add: upt_rec)
  have m: "map (\<lambda>i. Some (fst (process_paper ?w (?S ! i, i)))) [0 ..< length ?S] =
             [Some ?p, Some [(''title'', ''P'')]]"
    unfolding upt2 by (simp add: p0 p1)
  have perm: "mset [([(''title'', ''P'')], 1), (?p, 0)] =
              mset (map (process_paper ?w) (zip ?S [0 ..< length ?S]))"
    unfolding upt2 by (simp add: p0 p1)
  have notitle: "\<forall>u. dict_get (?S ! 0) ''detail_url'' = Some u \<longrightarrow>
                   ''title'' \<notin> fst ` set (paper_details ?w 0 u)"
    by (simp add: world_def abstract_details_def)
  note th = enrichment_order[OF pos, of ?w ?S]
  from th have e1: "enrich ?w 4 ?S = Inr [Some ?p, Some [(''title'', ''P'')]]"
    unfolding m by blast
  from th perm have e2: "assemble (length ?S) [([(''title'', ''P'')], 1), (?p, 0)] =
           Inr [Some ?p, Some [(''title'', ''P'')]]"
    unfolding m by blast
  from th have t: "\<forall>i < length ?S.
             (\<forall>u. dict_get (?S ! i) ''detail_url'' = Some u \<longrightarrow>
                    ''title'' \<notin> fst ` set (paper_details ?w i u)) \<longrightarrow>
             dict_get (fst (process_paper ?w (?S ! i, i))) ''title'' = dict_get (?S ! i) ''title''"
    by blast
  from t[rule_format, of 0] notitle
  have e3: "dict_get (fst (process_paper ?w (?S ! 0, 0))) ''title'' = dict_get (?S ! 0) ''title''"
    by simp
  from pos e1 e2 e3 show ?thesis by (simp add: p0 numeral_2_eq_2)
qed

text \<open>
  C3 as stated fails for the title: a detail page with a field labelled \<open>title\<close>
  overwrites the title of the item.
\<close>

theorem enrichment_title_counterexample:
  "enrich (world years_listing retitling_details) 4 [paper_of_year ''2021''] =
     Inr [Some ((''title'', ''Other'') # tl (paper_of_year ''2021''))]
   \<and> dict_get ((''title'', ''Other'') # tl (paper_of_year ''2021'')) ''title'' = Some ''Other''
   \<and> dict_get (paper_of_year ''2021'') ''title'' = Some ''P2021''"
  by code_simp

text \<open>
  C4, as amended. Every record returned by get_profile_papers is non-empty and is the
  record extracted from one of the rows requested; a row that yields no field is never
  listed. A record has a \<open>title\<close> exactly when its row has a link in a title cell, and
  the title is the text of that link.
\<close>

theorem listed_records_nonempty:
  "(\<forall>ps reqs. get_profile_papers e purl mp yl = Some (ps, reqs) \<longrightarrow>
      (\<forall>p \<in> set ps. p \<noteq> [] \<and>
         (\<exists>r \<in> set (rows_of e (user_of_url e purl) reqs).
            p = extract_paper_info e r (user_of_url e purl))))
   \<and> dict_get (extract_paper_info e r u) ''title'' =
       (case title_td r of None \<Rightarrow> None | Some tc \<Rightarrow> map_option link_text (cell_link tc))"
proof (intro conjI allI impI ballI)
  fix ps reqs p
  assume run: "get_profile_papers e purl mp yl = Some (ps, reqs)" and p: "p \<in> set ps"
  from get_profile_papers_invariant(1)[OF run] kept_prefix
  have "prefix ps (row_records e (user_of_url e purl) (rows_of e (user_of_url e purl) reqs))"
    by (rule prefix_order.trans)
  with p have "p \<in> set (row_records e (user_of_url e purl) (rows_of e (user_of_url e purl) reqs))"
    by (meson set_mono_prefix subsetD)
  from row_records_nonempty[OF this]
  show "p \<noteq> []" and "\<exists>r \<in> set (rows_of e (user_of_url e purl) reqs).
            p = extract_paper_info e r (user_of_url e purl)"
    by simp_all
next
  show "dict_get (extract_paper_info e r u) ''title'' =
       (case title_td r of None \<Rightarrow> None | Some tc \<Rightarrow> map_option link_text (cell_link tc))"
    by (simp add: extract_fields extractable_def)
qed


theorem listed_records_nonempty_witness:
  "get_profile_papers (world mixed_listing no_details) ''/citations?user=u1'' None None =
     Some ([[(''title'', ''P'')], paper_of_year ''2021''], [0])
   \<and> [(''title'', ''P'')] \<noteq> [] \<and> paper_of_year ''2021'' \<noteq> []"
proof -
  have run: "get_profile_papers (world mixed_listing no_details) ''/citations?user=u1'' None None =
     Some ([[(''title'', ''P'')], paper_of_year ''2021''], [0])"
    by code_simp
  from listed_records_nonempty[of "world mixed_listing no_details" "''/citations?user=u1''" None None]
    run
  have "\<forall>p \<in> set [[(''title'', ''P'')], paper_of_year ''2021'']. p \<noteq> []"
    by blast
  with run show ?thesis by simp
qed

text \<open>
  C4 as stated fails: a row with a citations cell and no title cell is listed as a
  record without a \<open>title\<close>.
\<close>

theorem untitled_record_counterexample:
  "get_profile_papers (world (single_page [citations_only_row]) no_details)
       ''/citations?user=u1'' None None = Some ([[(''citations'', ''0'')]], [0])
   \<and> dict_get [(''citations'', ''0'')] ''title'' = None"
  by code_simp

text \<open>
  C5, as amended. For every cap and year limit, the result of get_profile_papers is
  exactly what the cap leaves of the non-empty records of the rows requested, in order,
  up to the first one failing the year check: a row that yields no field contributes
  nothing and the rows after it are still processed. The record of a row holds, for
  every key, exactly what the row offers for it (the title alone when urljoin raises on
  the \<open>href\<close> of the title link), and is empty exactly when the row offers nothing.
\<close>

theorem unparseable_row_skipped:
  "(\<forall>ps reqs. get_profile_papers e purl mp yl = Some (ps, reqs) \<longrightarrow>
      ps = capped mp
             (takeWhile (\<lambda>p. \<not> below_year_limit e yl p)
                (filter (\<lambda>p. p \<noteq> [])
                   (map (\<lambda>r. extract_paper_info e r (user_of_url e purl))
                      (rows_of e (user_of_url e purl) reqs)))))
   \<and> (\<forall>key. dict_get (extract_paper_info e r u) key = extractable e r key)
   \<and> (extract_paper_info e r u = [] \<longleftrightarrow> (\<forall>key. extractable e r key = None))"
proof (intro conjI allI impI)
  fix ps reqs
  assume run: "get_profile_papers e purl mp yl = Some (ps, reqs)"
  from get_profile_papers_invariant(2)[OF run]
  show "ps = capped mp
             (takeWhile (\<lambda>p. \<not> below_year_limit e yl p)
                (filter (\<lambda>p. p \<noteq> [])
                   (map (\<lambda>r. extract_paper_info e r (user_of_url e purl))
                      (rows_of e (user_of_url e purl) reqs))))"
    by (simp add: kept_def row_records_def)
next
  fix key show "dict_get (extract_paper_info e r u) key = extractable e r key"
    by (rule extract_fields)
next
  show "extract_paper_info e r u = [] \<longleftrightarrow> (\<forall>key. extractable e r key = None)"
    by (simp add: dict_empty_iff[of "extract_paper_info e r u"] extract_fields)
qed

theorem unparseable_row_skipped_witness:
  "get_profile_papers (world mixed_listing no_details) ''/citations?user=u1'' (Some 20) None =
     Some ([[(''title'', ''P'')], paper_of_year ''2021''], [0])
   \<and> [[(''title'', ''P'')], paper_of_year ''2021''] =
       capped (Some 20)
         (takeWhile (\<lambda>p. \<not> below_year_limit (world mixed_listing no_details) None p)
            (filter (\<lambda>p. p \<noteq> [])
               (map (\<lambda>r. extract_paper_info (world mixed_listing no_details) r ''u1'')
                  (rows_of (world mixed_listing no_details) ''u1'' [0]))))"
proof -
  let ?w = "world mixed_listing no_details"
  have run: "get_profile_papers ?w ''/citations?user=u1'' (Some 20) None =
     Some ([[(''title'', ''P'')], paper_of_year ''2021''], [0])"
    by code_simp
  have uid: "user_of_url ?w ''/citations?user=u1'' = ''u1''" by (simp add: world_def)
  from unparseable_row_skipped[of ?w "''/citations?user=u1''" "Some 20" None] run
  have "[[(''title'', ''P'')], paper_of_year ''2021''] =
       capped (Some 20)
         (takeWhile (\<lambda>p. \<not> below_year_limit ?w None p)
            (filter (\<lambda>p. p \<noteq> [])
               (map (\<lambda>r. extract_paper_info ?w r ''u1'') (rows_of ?w ''u1'' [0]))))"
    unfolding uid by blast
  with run show ?thesis by simp
qed

text \<open>
  C5 as stated fails: a row in which no cell is found contributes no record, not an
  empty one.
\<close>

theorem blank_row_counterexample:
  "get_profile_papers (world (single_page [blank_row, row_with_year ''2021'']) no_details)
       ''/citations?user=u1'' None None = Some ([paper_of_year ''2021''], [0])
   \<and> extract_paper_info (world (single_page [blank_row, row_with_year ''2021'']) no_details)
        blank_row ''u1'' = []
   \<and> [] \<notin> set [paper_of_year ''2021'']"
  by code_simp

text \<open>
  C6. Printing the summary is claimed never to raise. For a listing whose only row has
  a citations cell and no title cell, the listed record has no \<open>title\<close>, and the run
  ends in the \<open>KeyError\<close> of \<open>paper['title']\<close>.
\<close>

theorem summary_raises_without_title:
  "analyze_author_research (world (single_page [citations_only_row]) no_details)
       ''a'' (Some 20) 0 4 None = Some (Inl KeyError)"
  by code_simp

text \<open>
  C7. An out-of-bounds profile index is claimed never to fail. With one resolved
  profile and the index \<open>-2\<close>, the guard \<open>profile_index >= len(profiles)\<close> does not fire
  and \<open>profiles[-2]\<close> raises \<open>IndexError\<close>.
\<close>

theorem negative_index_raises:
  "analyze_author_research (world (single_page [row_with_year ''2021'']) no_details)
       ''a'' (Some 20) (- 2) 4 None = Some (Inl IndexError)"
  by code_simp

text \<open>
  C8, as amended. The record extracted from a listing row whose extraction is not cut
  short has a \<open>citations\<close> field exactly when the row has a citations cell; its value
  is \<open>"0"\<close> when that cell holds no link and the text of the link (not necessarily
  numeric) otherwise. A row whose extraction is cut short gives no \<open>citations\<close> field.
\<close>

theorem citations_field:
  "dict_get (extract_paper_info e r u) ''citations'' =
     (if cut_short e r then None
      else map_option (\<lambda>c. case c of None \<Rightarrow> ''0'' | Some t \<Rightarrow> t) (citations_td r))"
  by (simp add: extract_fields extractable_def split: option.splits)

theorem citations_field_witness:
  "\<not> cut_short (world (single_page []) no_details) citations_only_row
   \<and> dict_get (extract_paper_info (world (single_page []) no_details) citations_only_row ''u1'')
       ''citations'' = Some ''0''"
  using citations_field[of "world (single_page []) no_details" citations_only_row "''u1''"]
  by (simp add: citations_only_row_def cut_short_def)

text \<open>
  C8 as stated fails: a row with a title link and no citations cell is listed as a
  record without a \<open>citations\<close> field.
\<close>

theorem citations_absent_counterexample:
  "get_profile_papers (world (single_page [title_only_row]) no_details)
       ''/citations?user=u1'' None None = Some ([[(''title'', ''P'')]], [0])
     \<and> dict_get [(''title'', ''P'')] ''citations'' = None"
  by code_simp

text \<open>
  C9, as amended. With a user id, the offsets requested start at 0 and follow the
  paging rule. Whenever that rule leads from offset 0 through full pages to a page that
  fails or has fewer than 100 rows, no record fails the year check and the cap is not
  met, get_profile_papers requests exactly these offsets, each advanced by the number of
  rows received, and returns the records of all the pages, those of the last one
  included. In particular, when the first page has 100 rows and the second 37, every
  row yields a non-empty record that passes the year check and the cap is absent or at
  least 137, exactly the offsets 0 and 100 are requested and the 137 records are
  returned.
\<close>

theorem pagination:
  assumes "user_of_url e purl = uid" "uid \<noteq> []"
  shows "(\<forall>mp yl ps reqs. get_profile_papers e purl mp yl = Some (ps, reqs) \<longrightarrow>
            offsets_follow (list_works e uid) 0 reqs)
       \<and> (offsets_follow (list_works e uid) 0 offs
            \<and> (case list_works e uid (last offs) of
                  Failed \<Rightarrow> True | Page rows \<Rightarrow> length rows < 100)
            \<and> (\<forall>p \<in> set (row_records e uid (rows_of e uid offs)). \<not> below_year_limit e yl p)
            \<and> \<not> cap_met e uid mp 0 (rows_of e uid offs)
          \<longrightarrow> get_profile_papers e purl mp yl =
                Some (row_records e uid (rows_of e uid offs), offs))
       \<and> (list_works e uid 0 = Page rows1 \<and> length rows1 = 100
            \<and> list_works e uid 100 = Page rows2 \<and> length rows2 = 37
            \<and> (\<forall>r \<in> set (rows1 @ rows2).
                  extract_paper_info e r uid \<noteq> []
                  \<and> \<not> below_year_limit e yl (extract_paper_info e r uid))
            \<and> (uncapped mp \<or> (\<exists>n. mp = Some n \<and> 137 \<le> n))
          \<longrightarrow> get_profile_papers e purl mp yl =
                Some (map (\<lambda>r. extract_paper_info e r uid) (rows1 @ rows2), [0, 100])
              \<and> length (map (\<lambda>r. extract_paper_info e r uid) (rows1 @ rows2)) = 137)"
proof (intro conjI allI impI)
  fix mp yl ps reqs
  assume "get_profile_papers e purl mp yl = Some (ps, reqs)"
  from get_profile_papers_invariant(3)[OF this] assms
  show "offsets_follow (list_works e uid) 0 reqs" by simp
next
  assume "offsets_follow (list_works e uid) 0 offs
            \<and> (case list_works e uid (last offs) of
                  Failed \<Rightarrow> True | Page rows \<Rightarrow> length rows < 100)
            \<and> (\<forall>p \<in> set (row_records e uid (rows_of e uid offs)). \<not> below_year_limit e yl p)
            \<and> \<not> cap_met e uid mp 0 (rows_of e uid offs)"
  with get_profile_papers_all_pages[of e purl offs yl mp] assms
  show "get_profile_papers e purl mp yl = Some (row_records e uid (rows_of e uid offs), offs)"
    by simp
next
  assume a: "list_works e uid 0 = Page rows1 \<and> length rows1 = 100
            \<and> list_works e uid 100 = Page rows2 \<and> length rows2 = 37
            \<and> (\<forall>r \<in> set (rows1 @ rows2).
                  extract_paper_info e r uid \<noteq> []
                  \<and> \<not> below_year_limit e yl (extract_paper_info e r uid))
            \<and> (uncapped mp \<or> (\<exists>n. mp = Some n \<and> 137 \<le> n))"
  then have all: "row_records e uid (rows1 @ rows2) = map (\<lambda>r. extract_paper_info e r uid) (rows1 @ rows2)"
    by (intro row_records_all) simp
  have "get_profile_papers e purl mp yl = Some (row_records e uid (rows1 @ rows2), [0, 100])"
  proof (rule two_page_listing[OF assms])
    show "\<forall>p \<in> set (row_records e uid (rows1 @ rows2)). \<not> below_year_limit e yl p"
      unfolding all using a by auto
  qed (use a in simp_all)
  with all show "get_profile_papers e purl mp yl =
          Some (map (\<lambda>r. extract_paper_info e r uid) (rows1 @ rows2), [0, 100])" by simp
  from a show "length (map (\<lambda>r. extract_paper_info e r uid) (rows1 @ rows2)) = 137" by simp
qed

text \<open>
  The scenario of C9 under the cap 137 and the year limit 2020, and a listing of two
  full pages and a short one.
\<close>

theorem pagination_witness:
  "get_profile_papers (world (two_pages (row_with_year ''2021'')) no_details)
       ''/citations?user=u1'' (Some 137) (Some 2020) =
     Some (replicate 137 (paper_of_year ''2021''), [0, 100])
   \<and> length (replicate 137 (paper_of_year ''2021'')) = 137
   \<and> get_profile_papers (world (three_pages (row_with_year ''2021'')) no_details)
       ''/citations?user=u1'' None None =
     Some (replicate 237 (paper_of_year ''2021''), [0, 100, 200])"
proof -
  let ?r = "row_with_year ''2021''"
  let ?p = "paper_of_year ''2021''"
  let ?w = "world (two_pages ?r) no_details"
  let ?v = "world (three_pages ?r) no_details"
  have uid: "user_of_url ?w ''/citations?user=u1'' = ''u1''"
    and uid3: "user_of_url ?v ''/citations?user=u1'' = ''u1''" by (simp_all add: world_def)
  have ne: "''u1'' \<noteq> []" by simp
  have ex: "extract_paper_info ?w ?r ''u1'' = ?p" and ex3: "extract_paper_info ?v ?r ''u1'' = ?p"
    by (rule extract_row_with_year)+
  have pne: "?p \<noteq> []" by (simp add: paper_of_year_def)
  have ok: "\<not> below_year_limit ?w (Some 2020) ?p" by code_simp
  have lw: "list_works ?w ''u1'' 0 = Page (replicate 100 ?r)"
    "list_works ?w ''u1'' 100 = Page (replicate 37 ?r)"
    by (simp_all add: world_def two_pages_def)
  have pre: "list_works ?w ''u1'' 0 = Page (replicate 100 ?r) \<and> length (replicate 100 ?r) = 100
      \<and> list_works ?w ''u1'' 100 = Page (replicate 37 ?r) \<and> length (replicate 37 ?r) = 37
      \<and> (\<forall>r \<in> set (replicate 100 ?r @ replicate 37 ?r).
            extract_paper_info ?w r ''u1'' \<noteq> []
            \<and> \<not> below_year_limit ?w (Some 2020) (extract_paper_info ?w r ''u1''))
      \<and> (uncapped (Some 137) \<or> (\<exists>n. Some (137::int) = Some n \<and> 137 \<le> n))"
    by (simp add: lw ex pne ok)
  have m: "map (\<lambda>r. extract_paper_info ?w r ''u1'') (replicate 100 ?r @ replicate 37 ?r) =
             replicate 137 ?p"
    by (simp add: ex replicate_add[symmetric])
  from pagination[OF uid ne, where ?rows1.0 = "replicate 100 ?r" and ?rows2.0 = "replicate 37 ?r"
         and yl = "Some 2020" and mp = "Some 137"] pre
  have run: "get_profile_papers ?w ''/citations?user=u1'' (Some 137) (Some 2020) =
     Some (replicate 137 ?p, [0, 100])"
    unfolding m by blast
  have pages: "list_works ?v ''u1'' 0 = Page (replicate 100 ?r)"
    "list_works ?v ''u1'' 100 = Page (replicate 100 ?r)"
    "list_works ?v ''u1'' 200 = Page (replicate 37 ?r)"
    by (simp_all add: world_def three_pages_def)
  have ro: "rows_of ?v ''u1'' [0, 100, 200] = replicate 237 ?r"
    by (simp add: rows_of_def page_rows_def pages replicate_add[symmetric])
  have rr: "row_records ?v ''u1'' (replicate 237 ?r) = replicate 237 ?p"
    using ex3 pne by (rule row_records_replicate)
  have pre3: "offsets_follow (list_works ?v ''u1'') 0 [0, 100, 200]
      \<and> (case list_works ?v ''u1'' (last [0, 100, 200]) of
            Failed \<Rightarrow> True | Page rows \<Rightarrow> length rows < 100)
      \<and> (\<forall>p \<in> set (row_records ?v ''u1'' (rows_of ?v ''u1'' [0, 100, 200])).
            \<not> below_year_limit ?v None p)
      \<and> \<not> cap_met ?v ''u1'' None 0 (rows_of ?v ''u1'' [0, 100, 200])"
    by (simp add: pages below_year_limit_def cap_met_def)
  from pagination[OF uid3 ne, where offs = "[0, 100, 200]" and yl = None and mp = None] pre3
  have run3: "get_profile_papers ?v ''/citations?user=u1'' None None =
     Some (replicate 237 ?p, [0, 100, 200])"
    unfolding ro rr by blast
  from run run3 show ?thesis by simp
qed

text \<open>
  C9 as stated fails: 100 and then 37 rows in which no cell is found give two requests
  and no item, since rows with an empty record are skipped.
\<close>

theorem pagination_blank_rows_counterexample:
  "get_profile_papers (world (two_pages blank_row) no_details)
       ''/citations?user=u1'' None None = Some ([], [0, 100])
   \<and> length ([] :: pydict list) \<noteq> 137"
proof -
  let ?w = "world (two_pages blank_row) no_details"
  have b: "extract_paper_info ?w blank_row ''u1'' = []"
    by (simp add: extract_defs blank_row_def)
  have rr: "row_records ?w ''u1'' (replicate 100 blank_row @ replicate 37 blank_row) = []"
    by (simp add: row_records_def b)
  have uid: "user_of_url ?w ''/citations?user=u1'' = ''u1''" by (simp add: world_def)
  have lw: "list_works ?w ''u1'' 0 = Page (replicate 100 blank_row)"
    "list_works ?w ''u1'' 100 = Page (replicate 37 blank_row)"
    by (simp_all add: world_def two_pages_def)
  have none: "\<forall>p \<in> set (row_records ?w ''u1'' (replicate 100 blank_row @ replicate 37 blank_row)).
                \<not> below_year_limit ?w None p"
    by (simp add: rr)
  have "get_profile_papers ?w ''/citations?user=u1'' None None =
          Some (row_records ?w ''u1'' (replicate 100 blank_row @ replicate 37 blank_row), [0, 100])"
    using uid _ lw(1) _ lw(2) _ none
    by (rule two_page_listing) (simp_all add: uncapped_def)
  then show ?thesis by (simp add: rr)
qed

text \<open>
  C10, as amended. With \<open>max_papers = 0\<close>, get_profile_papers behaves as with no cap; a
  run of analyze_author_research that returns normally returns the empty list, requests
  no detail page and prints no paper; and it does return so whenever a profile is
  chosen, the worker count is positive and the listing returns.
\<close>

theorem zero_max_papers:
  "get_profile_papers e purl (Some 0) yl = get_profile_papers e purl None yl
   \<and> (\<forall>r. analyze_author_research e author (Some 0) idx nw yl = Some (Inr r) \<longrightarrow>
          returned r = [] \<and> detail_requests r = [] \<and> printed r = [])
   \<and> (search_profiles e author \<noteq> []
        \<and> choose_profile (search_profiles e author) idx = Inr (chosen, warned)
        \<and> 0 < nw
        \<and> get_profile_papers e (url chosen) None yl = Some (ps, reqs)
      \<longrightarrow> analyze_author_research e author (Some 0) idx nw yl =
            Some (Inr \<lparr>returned = [], listing_requests = reqs, detail_requests = [],
                       printed = [], index_warning = warned\<rparr>))"
proof (intro conjI allI impI)
  show "get_profile_papers e purl (Some 0) yl = get_profile_papers e purl None yl"
    by (rule get_profile_papers_zero_cap)
next
  fix r
  assume run: "analyze_author_research e author (Some 0) idx nw yl = Some (Inr r)"
  have cut: "slice_to xs (Some 0) = []" for xs :: "pydict list"
    by (simp add: slice_to_def)
  have en: "enrich e nw [] = Inr out \<Longrightarrow> out = []" for out
    by (simp add: enrich_def assemble_def split: if_splits)
  from run have "returned r = [] \<and> detail_requests r = [] \<and> printed r = []"
    by (auto simp: analyze_author_research_def Let_def cut List.map_filter_simps dest!: en
          split: if_splits sum.splits option.splits)
  then show "returned r = []" "detail_requests r = []" "printed r = []" by simp_all
next
  assume a: "search_profiles e author \<noteq> []
        \<and> choose_profile (search_profiles e author) idx = Inr (chosen, warned)
        \<and> 0 < nw
        \<and> get_profile_papers e (url chosen) None yl = Some (ps, reqs)"
  then show "analyze_author_research e author (Some 0) idx nw yl =
            Some (Inr \<lparr>returned = [], listing_requests = reqs, detail_requests = [],
                       printed = [], index_warning = warned\<rparr>)"
    by (simp add: analyze_author_research_def Let_def get_profile_papers_zero_cap slice_to_def
          enrich_Nil List.map_filter_simps)
qed


theorem zero_max_papers_witness:
  "get_profile_papers (world years_listing no_details) ''/citations?user=u1'' (Some 0) None =
     Some ([paper_of_year ''2021'', paper_of_year ''2020'', paper_of_year ''2019'',
            paper_of_year ''2022''], [0])
   \<and> analyze_author_research (world years_listing no_details) ''a'' (Some 0) 0 4 None =
       Some (Inr \<lparr>returned = [], listing_requests = [0], detail_requests = [],
                  printed = [], index_warning = False\<rparr>)"
proof -
  let ?w = "world years_listing no_details"
  have run: "get_profile_papers ?w ''/citations?user=u1'' None None =
     Some ([paper_of_year ''2021'', paper_of_year ''2020'', paper_of_year ''2019'',
            paper_of_year ''2022''], [0])"
    by code_simp
  have pre: "search_profiles ?w ''a'' \<noteq> []
      \<and> choose_profile (search_profiles ?w ''a'') 0 =
          Inr (\<lparr>name = ''a'', url = ''/citations?user=u1'', info = ''a''\<rparr>, False)
      \<and> (0::int) < 4"
    by (simp add: world_def choose_profile_def list_index_def)
  from zero_max_papers[of ?w "''/citations?user=u1''" None "''a''" 0 4
         "\<lparr>name = ''a'', url = ''/citations?user=u1'', info = ''a''\<rparr>" False _ "[0]"]
    run pre
  show ?thesis by simp
qed

text \<open>
  C10 as stated fails: with \<open>max_papers = 0\<close> the run raises \<open>ValueError\<close> for a worker
  count of 0 and \<open>IndexError\<close> for the profile index \<open>-2\<close>, and returns nothing.
\<close>

theorem zero_max_papers_raises_counterexample:
  "analyze_author_research (world years_listing no_details) ''a'' (Some 0) 0 0 None =
     Some (Inl ValueError)
   \<and> analyze_author_research (world years_listing no_details) ''a'' (Some 0) (- 2) 4 None =
       Some (Inl IndexError)"
  by code_simp

end
